theory Spec2Isabelle
  imports Complex_Main "HOL-Library.Word" "HOL-Library.Sublist" "HOL-Library.Multiset"
begin

section \<open>Audio transcription pipeline: \<open>services/geminiService.ts\<close>\<close>

text \<open>
  The development embeds the functions of \<open>src/services/geminiService.ts\<close>:
  \<open>encodeWAV\<close>, \<open>blobToBase64\<close>, \<open>formatTime\<close>, \<open>processSingleChunk\<close>,
  \<open>processChunkedAudio\<close> and \<open>processAudioWithGemini\<close>.

  Conventions of the embedding.
  \<^item> A JavaScript number is a \<open>rat\<close> where it may be fractional (times in seconds, audio
    samples) and an \<open>int\<close> where the program only produces integers. An operation whose
    exact result need not be a double is followed by \<open>fl\<close>, the rounding to double precision:
    the products of lines 136, 154 and 155, the sums of lines 169 and 170, and the quotient
    that is \<open>AudioBuffer.duration\<close>. The other operations are exact on the values they meet:
    every finite element of a \<open>Float32Array\<close> is a dyadic rational, and the products
    \<open>s * 0x8000\<close> and \<open>s * 0x7FFF\<close> of \<open>encodeWAV\<close> are exact in double precision; the
    window cursor of the slicing loop only takes the values \<open>0, 60, 120, \<dots>\<close> and the total
    duration, and the sign of a difference of two doubles is the sign of its rounding.
    \<open>NaN\<close> and the infinities are not modelled.
  \<^item> A thrown value or a rejected promise is the \<open>Inl\<close> of a sum; \<open>Inr\<close> is a normal return.
  \<^item> The platform (environment variables, \<open>FileReader\<close>, the Web Audio decoder and renderer,
    the remote model, \<open>JSON.parse\<close>, the clock, the engine's sort on an inconsistent
    comparator) is a record of functions, \<open>env\<close>; every theorem holds for all of them.
  \<^item> Effects are recorded in a trace of events that each function takes and returns.
\<close>

subsection \<open>Thrown values\<close>

datatype js_error =
    Error string  \<comment> \<open>an \<open>Error\<close> object with this \<open>message\<close>\<close>
  | RangeError    \<comment> \<open>a \<open>DataView\<close> access outside the buffer; the message is the engine's\<close>
  | TypeError     \<comment> \<open>a property read on \<open>null\<close> or \<open>undefined\<close>; the message is the engine's\<close>
  | ErrorEvent    \<comment> \<open>a rejection value that has no \<open>message\<close> property\<close>
  | NotSupportedError  \<comment> \<open>the \<open>DOMException\<close> of that name; the message is the engine's\<close>

definition bind_result :: "js_error + 'a \<Rightarrow> ('a \<Rightarrow> js_error + 'b) \<Rightarrow> js_error + 'b" where
  "bind_result m f = (case m of Inl e \<Rightarrow> Inl e | Inr x \<Rightarrow> f x)"

subsection \<open>Blobs and the \<open>DataView\<close>\<close>

type_synonym byte = "8 word"

record blob =
  content :: "byte list"
  mime :: string

definition size_blob :: "blob \<Rightarrow> nat" where
  "size_blob b = length (content b)"

text \<open>
  A \<open>DataView\<close> over an \<open>ArrayBuffer\<close> is the list of its bytes. A write of \<open>k\<close> bytes at
  \<open>byteOffset\<close> throws a \<open>RangeError\<close> unless \<open>byteOffset + k\<close> is within the buffer.
\<close>

definition store :: "byte list \<Rightarrow> nat \<Rightarrow> byte list \<Rightarrow> js_error + byte list" where
  "store view byteOffset bs =
     (if byteOffset + length bs \<le> length view
      then Inr (take byteOffset view @ bs @ drop (byteOffset + length bs) view)
      else Inl RangeError)"

definition bytes16 :: "16 word \<Rightarrow> byte list" where
  "bytes16 w = [ucast w, ucast (drop_bit 8 w)]"

definition bytes32 :: "32 word \<Rightarrow> byte list" where
  "bytes32 w = [ucast w, ucast (drop_bit 8 w), ucast (drop_bit 16 w), ucast (drop_bit 24 w)]"

text \<open>\<open>ToUint8\<close>, \<open>ToUint16\<close>, \<open>ToUint32\<close> reduce an integer modulo \<open>2^8\<close>, \<open>2^16\<close>, \<open>2^32\<close>:
  this is \<open>of_int\<close> into the word type.\<close>

definition setUint8 :: "byte list \<Rightarrow> nat \<Rightarrow> int \<Rightarrow> js_error + byte list" where
  "setUint8 view byteOffset v = store view byteOffset [of_int v]"

definition setUint16 :: "byte list \<Rightarrow> nat \<Rightarrow> int \<Rightarrow> bool \<Rightarrow> js_error + byte list" where
  "setUint16 view byteOffset v littleEndian =
     store view byteOffset (if littleEndian then bytes16 (of_int v) else rev (bytes16 (of_int v)))"

definition setUint32 :: "byte list \<Rightarrow> nat \<Rightarrow> int \<Rightarrow> bool \<Rightarrow> js_error + byte list" where
  "setUint32 view byteOffset v littleEndian =
     store view byteOffset (if littleEndian then bytes32 (of_int v) else rev (bytes32 (of_int v)))"

text \<open>\<open>ToInt16\<close> of a number truncates it towards zero and reduces it modulo \<open>2^16\<close>.\<close>

definition js_trunc :: "rat \<Rightarrow> int" where
  "js_trunc x = (if x < 0 then - \<lfloor>- x\<rfloor> else \<lfloor>x\<rfloor>)"

definition setInt16 :: "byte list \<Rightarrow> nat \<Rightarrow> rat \<Rightarrow> bool \<Rightarrow> js_error + byte list" where
  "setInt16 view byteOffset v littleEndian =
     store view byteOffset
       (if littleEndian then bytes16 (of_int (js_trunc v)) else rev (bytes16 (of_int (js_trunc v))))"

subsection \<open>\<open>encodeWAV\<close>\<close>

text \<open>The inner \<open>writeString\<close>: one \<open>setUint8\<close> per character, at \<open>offset + i\<close>.\<close>

fun writeString :: "byte list \<Rightarrow> nat \<Rightarrow> string \<Rightarrow> js_error + byte list" where
  "writeString view offset [] = Inr view"
| "writeString view offset (c # cs) =
     bind_result (setUint8 view offset (of_char c)) (\<lambda>view. writeString view (Suc offset) cs)"

text \<open>The sample loop: \<open>for (i = 0; i < samples.length; i++) { \<dots>; offset += 2 }\<close>.\<close>

fun writeSamples :: "byte list \<Rightarrow> nat \<Rightarrow> rat list \<Rightarrow> js_error + byte list" where
  "writeSamples view offset [] = Inr view"
| "writeSamples view offset (x # xs) =
     (let s = max (- 1) (min 1 x);
          s = (if s < 0 then s * 32768 else s * 32767)
      in bind_result (setInt16 view offset s True) (\<lambda>view. writeSamples view (offset + 2) xs))"

definition encodeWAV :: "rat list \<Rightarrow> int \<Rightarrow> js_error + blob" where
  "encodeWAV samples sampleRate =
    (let view = replicate (44 + length samples * 2) (0 :: byte) in
     bind_result (writeString view 0 ''RIFF'') (\<lambda>view.
     bind_result (setUint32 view 4 (36 + int (length samples) * 2) True) (\<lambda>view.
     bind_result (writeString view 8 ''WAVE'') (\<lambda>view.
     bind_result (writeString view 12 ''fmt '') (\<lambda>view.
     bind_result (setUint32 view 16 16 True) (\<lambda>view.
     bind_result (setUint16 view 20 1 True) (\<lambda>view.
     bind_result (setUint16 view 22 1 True) (\<lambda>view.
     bind_result (setUint32 view 24 sampleRate True) (\<lambda>view.
     bind_result (setUint32 view 28 (sampleRate * 2) True) (\<lambda>view.
     bind_result (setUint16 view 32 2 True) (\<lambda>view.
     bind_result (setUint16 view 34 16 True) (\<lambda>view.
     bind_result (writeString view 36 ''data'') (\<lambda>view.
     bind_result (setUint32 view 40 (int (length samples) * 2) True) (\<lambda>view.
     bind_result (writeSamples view 44 samples) (\<lambda>view.
     Inr \<lparr>content = view, mime = ''audio/wav''\<rparr>)))))))))))))))"

text \<open>Reading the container back: little-endian fields at a byte offset.\<close>

definition getUint16 :: "byte list \<Rightarrow> nat \<Rightarrow> nat" where
  "getUint16 bs off = unat (bs ! off) + 256 * unat (bs ! (off + 1))"

definition getUint32 :: "byte list \<Rightarrow> nat \<Rightarrow> nat" where
  "getUint32 bs off =
     unat (bs ! off) + 256 * unat (bs ! (off + 1)) + 65536 * unat (bs ! (off + 2))
       + 16777216 * unat (bs ! (off + 3))"

definition getInt16 :: "byte list \<Rightarrow> nat \<Rightarrow> int" where
  "getInt16 bs off =
     (let u = int (getUint16 bs off) in if u < 32768 then u else u - 65536)"

definition field16 :: "js_error + blob \<Rightarrow> nat \<Rightarrow> nat option" where
  "field16 r off = (case r of Inl e \<Rightarrow> None | Inr b \<Rightarrow> Some (getUint16 (content b) off))"

definition field32 :: "js_error + blob \<Rightarrow> nat \<Rightarrow> nat option" where
  "field32 r off = (case r of Inl e \<Rightarrow> None | Inr b \<Rightarrow> Some (getUint32 (content b) off))"

text \<open>The \<open>i\<close>-th 16-bit sample of the payload, which starts at byte 44.\<close>

definition sample_at :: "js_error + blob \<Rightarrow> nat \<Rightarrow> int option" where
  "sample_at r i =
     (case r of Inl e \<Rightarrow> None | Inr b \<Rightarrow> Some (getInt16 (content b) (44 + 2 * i)))"

text \<open>The value the specification gives a sample: clamp to \<open>[-1, 1]\<close>, scale a negative value
  by 32768 and any other by 32767; the integer kept is the product without its fraction.\<close>

definition pcm16 :: "rat \<Rightarrow> int" where
  "pcm16 x =
     (let c = max (- 1) (min 1 x)
      in if c < 0 then - \<lfloor>- (c * 32768)\<rfloor> else \<lfloor>c * 32767\<rfloor>)"

text \<open>Names for the bytes \<open>encodeWAV\<close> writes, used to state its result in closed form.\<close>

definition ascii :: "string \<Rightarrow> byte list" where
  "ascii s = map (\<lambda>c. of_int (of_char c)) s"

definition wav_header :: "nat \<Rightarrow> int \<Rightarrow> byte list" where
  "wav_header n sampleRate =
     ascii ''RIFF'' @ bytes32 (of_int (36 + int n * 2)) @ ascii ''WAVE'' @ ascii ''fmt ''
     @ bytes32 16 @ bytes16 1 @ bytes16 1 @ bytes32 (of_int sampleRate)
     @ bytes32 (of_int (sampleRate * 2)) @ bytes16 2 @ bytes16 16 @ ascii ''data''
     @ bytes32 (of_int (int n * 2))"

definition sample16 :: "rat \<Rightarrow> 16 word" where
  "sample16 x =
     of_int (js_trunc (let s = max (- 1) (min 1 x) in if s < 0 then s * 32768 else s * 32767))"

subsection \<open>Numbers as text, \<open>formatTime\<close>\<close>

text \<open>
  \<open>Number::toString\<close> prints an integer in decimal, with a leading minus sign when it is
  negative (the integers the program prints, array indices, clock readings and multiples of
  60, are far below \<open>10^21\<close>, where the exponent notation starts). How a fraction is printed
  depends on its double-precision representation and is left to the environment.
\<close>

definition digit_char :: "nat \<Rightarrow> char" where
  "digit_char d = char_of (48 + d)"

fun digits :: "nat \<Rightarrow> string" where
  "digits n = (if n < 10 then [digit_char n] else digits (n div 10) @ [digit_char (n mod 10)])"

declare digits.simps [simp del]

definition Int_toString :: "int \<Rightarrow> string" where
  "Int_toString k = (if k < 0 then CHR ''-'' # digits (nat (- k)) else digits (nat k))"

definition padStart :: "nat \<Rightarrow> char \<Rightarrow> string \<Rightarrow> string" where
  "padStart targetLength c s = replicate (targetLength - length s) c @ s"

text \<open>The remainder operator \<open>%\<close> takes the sign of the dividend.\<close>

definition js_rem :: "rat \<Rightarrow> rat \<Rightarrow> rat" where
  "js_rem x y = x - y * of_int (js_trunc (x / y))"

definition formatTime :: "rat \<Rightarrow> string" where
  "formatTime seconds =
     (let mins = \<lfloor>seconds / 60\<rfloor>;
          secs = \<lfloor>js_rem seconds 60\<rfloor>
      in Int_toString mins @ '':'' @ padStart 2 (CHR ''0'') (Int_toString secs))"

text \<open>\<open>String.prototype.includes\<close>.\<close>

fun str_includes :: "string \<Rightarrow> string \<Rightarrow> bool" where
  "str_includes [] searchString = (searchString = [])"
| "str_includes (c # cs) searchString =
     (prefix searchString (c # cs) \<or> str_includes cs searchString)"

subsection \<open>Double precision\<close>

text \<open>
  The rounding of a rational to the nearest double (IEEE 754 binary64, ties to the even
  significand). \<open>binade x\<close> is the exponent \<open>e\<close> with \<open>2^e \<le> |x| < 2^(e+1)\<close>, not below
  \<open>-1022\<close> (the subnormal range) and not above \<open>1023\<close>; the doubles of that binade are the
  multiples of \<open>2^(e - 52)\<close>. A result beyond the largest double, which is an infinity in
  JavaScript, is not modelled.
\<close>

definition round_half_even :: "rat \<Rightarrow> int" where
  "round_half_even y =
     (let f = \<lfloor>y\<rfloor>; r = y - of_int f
      in if r < 1 / 2 then f else if 1 / 2 < r then f + 1 else if even f then f else f + 1)"

definition binade :: "rat \<Rightarrow> int" where
  "binade x =
     (if \<bar>x\<bar> < 2 powi (- 1022) then - 1022
      else Max (Set.filter (\<lambda>e. 2 powi e \<le> \<bar>x\<bar>) {- 1022 .. 1023}))"

definition fl :: "rat \<Rightarrow> rat" where
  "fl x =
     (let quantum = 2 powi (binade x - 52)
      in of_int (round_half_even (x / quantum)) * quantum)"

text \<open>The conversion of a number to the Web IDL type \<open>unsigned long\<close>: the fraction is
  dropped and the integer reduced modulo \<open>2^32\<close>.\<close>

definition unsigned_long :: "rat \<Rightarrow> nat" where
  "unsigned_long x = nat (js_trunc x mod 2 ^ 32)"

subsection \<open>JSON values and subtitle segments\<close>

datatype json =
    JNull | JBool bool | JNum rat | JStr string | JArr "json list" | JObj "(string \<times> json) list"

text \<open>
  A JavaScript value held in a segment field: \<open>undefined\<close>, a value that came out of
  \<open>JSON.parse\<close>, or the sum \<open>v + t\<close> of a value \<open>v\<close> that is not a number and a number \<open>t\<close>.
  JavaScript coerces such a sum (to \<open>NaN\<close>, to a number or to a string concatenation); the
  embedding computes the sum of two numbers, rounded to a double, and keeps any other sum
  as the term \<open>Plus v t\<close>.
\<close>

datatype jsval = Undefined | Val json | Plus jsval rat

record segment =
  seg_id :: string
  startTime :: jsval
  endTime :: jsval
  originalText :: jsval
  translatedText :: jsval

definition js_plus :: "jsval \<Rightarrow> rat \<Rightarrow> jsval" where
  "js_plus v t = (case v of Val (JNum x) \<Rightarrow> Val (JNum (fl (x + t))) | _ \<Rightarrow> Plus v t)"

definition is_number :: "jsval \<Rightarrow> bool" where
  "is_number v = (case v of Val (JNum x) \<Rightarrow> True | _ \<Rightarrow> False)"

definition number_of :: "jsval \<Rightarrow> rat" where
  "number_of v = (case v of Val (JNum x) \<Rightarrow> x | _ \<Rightarrow> 0)"

text \<open>
  The property read \<open>item.key\<close> on a value that is neither \<open>null\<close> nor \<open>undefined\<close>: an
  object yields the property or \<open>undefined\<close>; a number, string, boolean or array has no such
  property. (On \<open>null\<close> the read throws, see \<open>to_segment\<close>.)
\<close>

definition get_prop :: "json \<Rightarrow> string \<Rightarrow> jsval" where
  "get_prop item key =
     (case item of
        JObj kvs \<Rightarrow> (case map_of kvs key of None \<Rightarrow> Undefined | Some v \<Rightarrow> Val v)
      | _ \<Rightarrow> Undefined)"

subsection \<open>The environment and the trace\<close>

text \<open>
  The part of a request that varies: the \<open>inlineData\<close> of its first part. The model name,
  the prompt, \<open>SYSTEM_INSTRUCTION\<close>, \<open>RESPONSE_SCHEMA\<close> and the temperature are the same in
  every request.
\<close>

record request =
  mimeType :: string
  data :: "string option"  \<comment> \<open>\<open>None\<close> is \<open>undefined\<close>\<close>

datatype event =
    FileRead blob     \<comment> \<open>\<open>FileReader.readAsDataURL\<close> on a blob\<close>
  | Decoded blob      \<comment> \<open>\<open>arrayBuffer\<close>, \<open>decodeAudioData\<close> and the offline rendering of a file\<close>
  | Generate request  \<comment> \<open>one call of the remote model, \<open>ai.models.generateContent\<close>\<close>

text \<open>The buffer rendered at 16 kHz mono: its \<open>duration\<close> and \<open>getChannelData(0)\<close>.\<close>

record audio =
  duration :: rat
  channelData :: "rat list"

text \<open>
  What the program obtains from its platform. The remote model and the clock may answer
  differently at every call: they are functions of the trace so far. The reply of the
  model is a thrown error or a response whose \<open>text\<close> may be \<open>undefined\<close> (\<open>None\<close>).
  \<open>decodeAudioData\<close> stands for lines 131 to 133: a thrown value, or the \<open>duration\<close> of the
  decoded \<open>AudioBuffer\<close>, the one property of it the program reads. \<open>startRendering\<close> stands
  for lines 137 to 141 on an offline context of the given number of frames: a thrown
  value, or the rendered channel as a function from the frame index to the sample.
  \<open>JSON_parse\<close> is \<open>None\<close> where \<open>JSON.parse\<close> throws. \<open>engine_sort\<close> is the order the engine's
  \<open>Array.prototype.sort\<close> produces when the comparator does not return numbers
  (ECMAScript leaves it to the implementation).
\<close>

record env =
  API_KEY :: "string option"
  readAsDataURL :: "blob \<Rightarrow> js_error + string"
  decodeAudioData :: "blob \<Rightarrow> js_error + rat"
  startRendering :: "blob \<Rightarrow> nat \<Rightarrow> js_error + (nat \<Rightarrow> rat)"
  generateContent :: "event list \<Rightarrow> request \<Rightarrow> js_error + string option"
  JSON_parse :: "string \<Rightarrow> json option"
  Date_now :: "event list \<Rightarrow> nat \<Rightarrow> int"
  fraction_toString :: "rat \<Rightarrow> string"
  engine_sort :: "segment list \<Rightarrow> segment list"

definition Number_toString :: "env \<Rightarrow> rat \<Rightarrow> string" where
  "Number_toString env x =
     (if of_int \<lfloor>x\<rfloor> = x then Int_toString \<lfloor>x\<rfloor> else fraction_toString env x)"

subsection \<open>\<open>blobToBase64\<close> and \<open>processSingleChunk\<close>\<close>

text \<open>\<open>result.split(",")[1]\<close>: the text between the first comma and the next one, \<open>undefined\<close>
  when there is no comma.\<close>

definition split_comma_1 :: "string \<Rightarrow> string option" where
  "split_comma_1 s =
     (case dropWhile (\<lambda>c. c \<noteq> CHR '','') s of
        [] \<Rightarrow> None
      | c # rest \<Rightarrow> Some (takeWhile (\<lambda>c. c \<noteq> CHR '','') rest))"

definition blobToBase64 :: "env \<Rightarrow> blob \<Rightarrow> js_error + string option" where
  "blobToBase64 env b =
     (case readAsDataURL env b of
        Inl error \<Rightarrow> Inl error
      | Inr result \<Rightarrow> Inr (split_comma_1 result))"

text \<open>The callback of \<open>parsedData.map\<close>: lines 120 to 126.\<close>

definition to_segment :: "env \<Rightarrow> event list \<Rightarrow> json \<Rightarrow> nat \<Rightarrow> js_error + segment" where
  "to_segment env tr item index =
     (case item of
        JNull \<Rightarrow> Inl TypeError
      | _ \<Rightarrow>
          Inr \<lparr>seg_id = ''seg-'' @ Int_toString (Date_now env tr index) @ ''-''
                         @ Int_toString (int index),
               startTime = get_prop item ''startTime'',
               endTime = get_prop item ''endTime'',
               originalText = get_prop item ''originalText'',
               translatedText = get_prop item ''translatedText''\<rparr>)"

fun map_items :: "env \<Rightarrow> event list \<Rightarrow> json list \<Rightarrow> nat \<Rightarrow> js_error + segment list" where
  "map_items env tr [] index = Inr []"
| "map_items env tr (item # items) index =
     bind_result (to_segment env tr item index) (\<lambda>seg.
     bind_result (map_items env tr items (Suc index)) (\<lambda>segs. Inr (seg # segs)))"

text \<open>Lines 108 to 126: from \<open>response.text\<close> to the segments.\<close>

definition parse_response :: "env \<Rightarrow> event list \<Rightarrow> string option \<Rightarrow> js_error + segment list" where
  "parse_response env tr jsonText =
     (case jsonText of
        None \<Rightarrow> Inl (Error ''No response text received.'')
      | Some text \<Rightarrow>
          if text = [] then Inl (Error ''No response text received.'')
          else (case JSON_parse env text of
                  None \<Rightarrow> Inl (Error ''Failed to parse JSON response.'')
                | Some parsedData \<Rightarrow>
                    (case parsedData of
                       JArr items \<Rightarrow> map_items env tr items 0
                     | _ \<Rightarrow> Inl (Error ''Model response was not an array.''))))"

definition request_of :: "blob \<Rightarrow> string option \<Rightarrow> request" where
  "request_of b base64Data =
     \<lparr>mimeType = (if mime b = [] then ''audio/mp3'' else mime b), data = base64Data\<rparr>"

definition processSingleChunk ::
  "env \<Rightarrow> event list \<Rightarrow> blob \<Rightarrow> (js_error + segment list) \<times> event list" where
  "processSingleChunk env tr b =
     (case blobToBase64 env b of
        Inl error \<Rightarrow> (Inl error, tr @ [FileRead b])
      | Inr base64Data \<Rightarrow>
          (let req = request_of b base64Data;
               tr' = tr @ [FileRead b, Generate req]
           in case generateContent env (tr @ [FileRead b]) req of
                Inl error \<Rightarrow> (Inl error, tr')
              | Inr jsonText \<Rightarrow> (parse_response env tr' jsonText, tr')))"

subsection \<open>\<open>processChunkedAudio\<close>\<close>

definition CHUNK_THRESHOLD_BYTES :: nat where
  "CHUNK_THRESHOLD_BYTES = 2621440"  \<comment> \<open>\<open>2.5 * 1024 * 1024\<close>\<close>

definition CHUNK_DURATION_SECONDS :: rat where
  "CHUNK_DURATION_SECONDS = 60"

text \<open>\<open>Float32Array.prototype.slice(start, stop)\<close>: a negative index counts from the end, and
  both indices are clamped to the array.\<close>

definition slice :: "'a list \<Rightarrow> int \<Rightarrow> int \<Rightarrow> 'a list" where
  "slice xs start stop =
     (let len = int (length xs);
          k = (if start < 0 then max (len + start) 0 else min start len);
          final = (if stop < 0 then max (len + stop) 0 else min stop len)
      in take (nat (final - k)) (drop (nat k) xs))"

text \<open>The object spread of line 166: the id is prefixed with the window start, both times
  are moved by it.\<close>

definition adjust :: "env \<Rightarrow> rat \<Rightarrow> segment \<Rightarrow> segment" where
  "adjust env currentTime seg =
     seg\<lparr>seg_id := ''seg-'' @ Number_toString env currentTime @ ''-'' @ seg_id seg,
         startTime := js_plus (startTime seg) currentTime,
         endTime := js_plus (endTime seg) currentTime\<rparr>"

definition chunk_failure :: "rat \<Rightarrow> js_error" where
  "chunk_failure currentTime =
     Error (''Failed to process audio segment at '' @ formatTime currentTime @ ''. API Error.'')"

text \<open>
  Lines 131 to 141. The constructor \<open>OfflineAudioContext(1, length, 16000)\<close> converts its
  second argument, the double product \<open>audioBuffer.duration * 16000\<close>, to an \<open>unsigned long\<close>
  and throws a \<open>NotSupportedError\<close> when the length is zero (Web Audio API; a limit that
  an implementation puts on the length is not modelled). The rendered buffer
  has \<open>length\<close> frames at 16000 Hz; its \<open>duration\<close> is the double quotient of the two, and
  \<open>getChannelData(0)\<close> holds its \<open>length\<close> samples.
\<close>

definition decodeAndResample :: "env \<Rightarrow> blob \<Rightarrow> js_error + audio" where
  "decodeAndResample env file =
     (case decodeAudioData env file of
        Inl error \<Rightarrow> Inl error
      | Inr seconds \<Rightarrow>
          (let frames = unsigned_long (fl (seconds * 16000))
           in if frames = 0 then Inl NotSupportedError
              else (case startRendering env file frames of
                      Inl error \<Rightarrow> Inl error
                    | Inr channel \<Rightarrow>
                        Inr \<lparr>duration = fl (of_nat frames / 16000),
                             channelData = map channel [0 ..< frames]\<rparr>)))"

text \<open>The blob of a window: the slice of the samples and its WAV encoding, lines 154 to 158.\<close>

definition chunk_blob :: "rat list \<Rightarrow> rat \<Rightarrow> rat \<Rightarrow> js_error + blob" where
  "chunk_blob pcmData currentTime chunkEnd =
     (let sampleRate = 16000;
          startIndex = \<lfloor>fl (currentTime * of_int sampleRate)\<rfloor>;
          endIndex = \<lfloor>fl (chunkEnd * of_int sampleRate)\<rfloor>;
          chunkPCM = slice pcmData startIndex endIndex
      in encodeWAV chunkPCM sampleRate)"

text \<open>
  The \<open>while\<close> loop of lines 152 to 182, with its variables \<open>currentTime\<close> and \<open>allSegments\<close>
  as arguments. Only \<open>processSingleChunk\<close> and the adjustment are inside the \<open>try\<close>.
\<close>

function chunk_loop ::
  "env \<Rightarrow> rat list \<Rightarrow> rat \<Rightarrow> rat \<Rightarrow> segment list \<Rightarrow> event list
     \<Rightarrow> (js_error + segment list) \<times> event list" where
  "chunk_loop env pcmData totalDuration currentTime allSegments tr =
     (if currentTime < totalDuration then
        (let chunkEnd = min (currentTime + CHUNK_DURATION_SECONDS) totalDuration
         in case chunk_blob pcmData currentTime chunkEnd of
              Inl error \<Rightarrow> (Inl error, tr)
            | Inr chunkWavBlob \<Rightarrow>
                (case processSingleChunk env tr chunkWavBlob of
                   (Inr segments, tr') \<Rightarrow>
                     chunk_loop env pcmData totalDuration chunkEnd
                       (allSegments @ map (adjust env currentTime) segments) tr'
                 | (Inl err, tr') \<Rightarrow> (Inl (chunk_failure currentTime), tr')))
      else (Inr allSegments, tr))"
  by pat_completeness auto
termination
proof (relation "measure (\<lambda>(env, pcmData, totalDuration, currentTime, allSegments, tr).
    nat \<lceil>(totalDuration - currentTime) / 60\<rceil>)")
  show "wf (measure (\<lambda>(env, pcmData, totalDuration, currentTime, allSegments, tr).
    nat \<lceil>(totalDuration - currentTime) / 60\<rceil>))"
    by simp
next
  fix env :: env and pcmData :: "rat list" and totalDuration currentTime :: rat
    and allSegments :: "segment list" and tr :: "event list" and chunkEnd :: rat
  assume lt: "currentTime < totalDuration"
    and ce: "chunkEnd = min (currentTime + CHUNK_DURATION_SECONDS) totalDuration"
  have pos: "0 < \<lceil>(totalDuration - currentTime) / 60\<rceil>"
    using lt by (simp add: ceiling_less_iff less_ceiling_iff)
  have "\<lceil>(totalDuration - chunkEnd) / 60\<rceil> < \<lceil>(totalDuration - currentTime) / 60\<rceil>"
  proof (cases "currentTime + 60 \<le> totalDuration")
    case True
    then have "chunkEnd = currentTime + 60" using ce by (simp add: CHUNK_DURATION_SECONDS_def)
    then have "(totalDuration - chunkEnd) / 60 = (totalDuration - currentTime) / 60 - 1"
      by (simp add: diff_divide_distrib add_divide_distrib)
    then have "\<lceil>(totalDuration - chunkEnd) / 60\<rceil> = \<lceil>(totalDuration - currentTime) / 60\<rceil> - 1"
      by (simp only: ceiling_diff_one)
    then show ?thesis by linarith
  next
    case False
    then have "chunkEnd = totalDuration" using ce by (simp add: CHUNK_DURATION_SECONDS_def)
    then show ?thesis using pos by simp
  qed
  then show "\<And>x y ya xa. ((env, pcmData, totalDuration, chunkEnd,
        allSegments @ map (adjust env currentTime) xa, ya),
       env, pcmData, totalDuration, currentTime, allSegments, tr)
      \<in> measure (\<lambda>(env, pcmData, totalDuration, currentTime, allSegments, tr).
          nat \<lceil>(totalDuration - currentTime) / 60\<rceil>)"
    using pos by simp
qed

declare chunk_loop.simps [simp del]

text \<open>
  \<open>Array.prototype.sort(compareFn)\<close>. ECMAScript requires the sort to be stable and, for a
  comparator that orders the elements consistently, to return them in that order: the
  insertion below, which puts an element before the first one it does not exceed. The
  comparator of line 184, \<open>a.startTime - b.startTime\<close>, is consistent when every start time is
  a number; otherwise the order is the engine's.
\<close>

fun insert_by :: "('a \<Rightarrow> 'a \<Rightarrow> rat) \<Rightarrow> 'a \<Rightarrow> 'a list \<Rightarrow> 'a list" where
  "insert_by compareFn a [] = [a]"
| "insert_by compareFn a (b # bs) =
     (if compareFn a b \<le> 0 then a # b # bs else b # insert_by compareFn a bs)"

definition Array_sort :: "('a \<Rightarrow> 'a \<Rightarrow> rat) \<Rightarrow> 'a list \<Rightarrow> 'a list" where
  "Array_sort compareFn xs = foldr (insert_by compareFn) xs []"

definition sort_by_startTime :: "env \<Rightarrow> segment list \<Rightarrow> segment list" where
  "sort_by_startTime env allSegments =
     (if list_all (\<lambda>s. is_number (startTime s)) allSegments
      then Array_sort (\<lambda>a b. number_of (startTime a) - number_of (startTime b)) allSegments
      else engine_sort env allSegments)"

definition processChunkedAudio ::
  "env \<Rightarrow> event list \<Rightarrow> blob \<Rightarrow> (js_error + segment list) \<times> event list" where
  "processChunkedAudio env tr file =
     (case decodeAndResample env file of
        Inl error \<Rightarrow> (Inl error, tr @ [Decoded file])
      | Inr resampledBuffer \<Rightarrow>
          (case chunk_loop env (channelData resampledBuffer) (duration resampledBuffer) 0 []
                  (tr @ [Decoded file]) of
             (Inl error, tr') \<Rightarrow> (Inl error, tr')
           | (Inr allSegments, tr') \<Rightarrow> (Inr (sort_by_startTime env allSegments), tr')))"

subsection \<open>\<open>processAudioWithGemini\<close>\<close>

text \<open>\<open>error.message?.includes(s)\<close>: false for a value without a message. The messages the
  engine gives a \<open>RangeError\<close>, a \<open>TypeError\<close> or a \<open>NotSupportedError\<close> mention neither
  phrase of line 72.\<close>

definition message_includes :: "js_error \<Rightarrow> string \<Rightarrow> bool" where
  "message_includes error s = (case error of Error m \<Rightarrow> str_includes m s | _ \<Rightarrow> False)"

definition network_error :: js_error where
  "network_error = Error (''Network error during upload. The file size might exceed the API''
     @ [CHR 0x27] @ ''s payload limit. Please try a smaller file or ensure your network is stable.'')"

definition processAudioWithGemini ::
  "env \<Rightarrow> event list \<Rightarrow> blob \<Rightarrow> (js_error + segment list) \<times> event list" where
  "processAudioWithGemini env tr audioFile =
     (case API_KEY env of
        None \<Rightarrow> (Inl (Error ''API Key is missing from environment variables.''), tr)
      | Some apiKey \<Rightarrow>
          if apiKey = [] then (Inl (Error ''API Key is missing from environment variables.''), tr)
          else
            (case (if size_blob audioFile < CHUNK_THRESHOLD_BYTES
                   then processSingleChunk env tr audioFile
                   else processChunkedAudio env tr audioFile) of
               (Inr segments, tr') \<Rightarrow> (Inr segments, tr')
             | (Inl error, tr') \<Rightarrow>
                 if message_includes error ''Rpc failed'' \<or> message_includes error ''xhr error''
                 then (Inl network_error, tr')
                 else (Inl error, tr')))"

subsection \<open>The windows of the slicing loop\<close>

text \<open>The cursor of the loop alone: the pairs \<open>(currentTime, chunkEnd)\<close> of its iterations
  when no iteration throws.\<close>

function chunk_windows :: "rat \<Rightarrow> rat \<Rightarrow> (rat \<times> rat) list" where
  "chunk_windows currentTime totalDuration =
     (if currentTime < totalDuration then
        (let chunkEnd = min (currentTime + CHUNK_DURATION_SECONDS) totalDuration
         in (currentTime, chunkEnd) # chunk_windows chunkEnd totalDuration)
      else [])"
  by pat_completeness auto
termination
proof (relation "measure (\<lambda>(currentTime, totalDuration).
    nat \<lceil>(totalDuration - currentTime) / 60\<rceil>)")
  show "wf (measure (\<lambda>(currentTime, totalDuration). nat \<lceil>(totalDuration - currentTime) / 60\<rceil>))"
    by simp
next
  fix currentTime totalDuration chunkEnd :: rat
  assume lt: "currentTime < totalDuration"
    and ce: "chunkEnd = min (currentTime + CHUNK_DURATION_SECONDS) totalDuration"
  have pos: "0 < \<lceil>(totalDuration - currentTime) / 60\<rceil>"
    using lt by (simp add: ceiling_less_iff less_ceiling_iff)
  have "\<lceil>(totalDuration - chunkEnd) / 60\<rceil> < \<lceil>(totalDuration - currentTime) / 60\<rceil>"
  proof (cases "currentTime + 60 \<le> totalDuration")
    case True
    then have "chunkEnd = currentTime + 60" using ce by (simp add: CHUNK_DURATION_SECONDS_def)
    then have "(totalDuration - chunkEnd) / 60 = (totalDuration - currentTime) / 60 - 1"
      by (simp add: diff_divide_distrib add_divide_distrib)
    then have "\<lceil>(totalDuration - chunkEnd) / 60\<rceil> = \<lceil>(totalDuration - currentTime) / 60\<rceil> - 1"
      by (simp only: ceiling_diff_one)
    then show ?thesis by linarith
  next
    case False
    then have "chunkEnd = totalDuration" using ce by (simp add: CHUNK_DURATION_SECONDS_def)
    then show ?thesis using pos by simp
  qed
  then show "((chunkEnd, totalDuration), currentTime, totalDuration)
      \<in> measure (\<lambda>(currentTime, totalDuration). nat \<lceil>(totalDuration - currentTime) / 60\<rceil>)"
    using pos by simp
qed


declare chunk_windows.simps [simp del]

subsection \<open>Notions used in the statements\<close>

text \<open>
  The blob of a window in closed form, the blobs of all windows of a rendered buffer, the
  results and the trace of calling \<open>processSingleChunk\<close> on a list of blobs one after the
  other, the remote calls recorded in a trace, the call made for a blob (none when reading
  the blob fails), and the segment of a window moved to the timeline of the whole file as
  the specification words it: the sums are the double sums of JavaScript.
\<close>

definition window_blob :: "rat list \<Rightarrow> rat \<times> rat \<Rightarrow> blob" where
  "window_blob pcmData w =
     (let chunkPCM = slice pcmData \<lfloor>fl (fst w * 16000)\<rfloor> \<lfloor>fl (snd w * 16000)\<rfloor>
      in \<lparr>content = wav_header (length chunkPCM) 16000
                       @ concat (map (\<lambda>x. bytes16 (sample16 x)) chunkPCM),
           mime = ''audio/wav''\<rparr>)"

definition window_blobs :: "audio \<Rightarrow> blob list" where
  "window_blobs buf = map (window_blob (channelData buf)) (chunk_windows 0 (duration buf))"

fun transcripts :: "env \<Rightarrow> event list \<Rightarrow> blob list \<Rightarrow> (js_error + segment list) list" where
  "transcripts env tr [] = []"
| "transcripts env tr (b # bs) =
     fst (processSingleChunk env tr b) # transcripts env (snd (processSingleChunk env tr b)) bs"

fun trace_after :: "env \<Rightarrow> event list \<Rightarrow> blob list \<Rightarrow> event list" where
  "trace_after env tr [] = tr"
| "trace_after env tr (b # bs) = trace_after env (snd (processSingleChunk env tr b)) bs"

fun calls :: "event list \<Rightarrow> request list" where
  "calls [] = []"
| "calls (Generate req # tr) = req # calls tr"
| "calls (e # tr) = calls tr"

definition call_for :: "env \<Rightarrow> blob \<Rightarrow> request list" where
  "call_for env b =
     (case blobToBase64 env b of Inl error \<Rightarrow> [] | Inr base64Data \<Rightarrow> [request_of b base64Data])"

definition shifted :: "env \<Rightarrow> rat \<Rightarrow> segment \<Rightarrow> segment" where
  "shifted env windowStartTime s =
     \<lparr>seg_id = ''seg-'' @ Number_toString env windowStartTime @ ''-'' @ seg_id s,
      startTime = Val (JNum (fl (number_of (startTime s) + windowStartTime))),
      endTime = Val (JNum (fl (number_of (endTime s) + windowStartTime))),
      originalText = originalText s,
      translatedText = translatedText s\<rparr>"

definition stitched :: "env \<Rightarrow> (rat \<times> rat) list \<Rightarrow> segment list list \<Rightarrow> segment list" where
  "stitched env ws segss = concat (map2 (\<lambda>w segs. map (shifted env (fst w)) segs) ws segss)"

text \<open>
  Base64 (RFC 4648, with padding), the data URL that \<open>FileReader.readAsDataURL\<close> makes of
  a blob's bytes with a media type, and the request that carries a blob: its type, or
  \<open>audio/mp3\<close> when it has none, and the Base64 text of its bytes.
\<close>

definition base64_char :: "nat \<Rightarrow> char" where
  "base64_char n =
     ''ABCDEFGHIJKLMNOPQRSTUVWXYZabcdefghijklmnopqrstuvwxyz0123456789+/'' ! n"

fun base64 :: "byte list \<Rightarrow> string" where
  "base64 [] = []"
| "base64 [a] =
     [base64_char (unat a div 4), base64_char (unat a mod 4 * 16), CHR ''='', CHR ''='']"
| "base64 [a, b] =
     [base64_char (unat a div 4), base64_char (unat a mod 4 * 16 + unat b div 16),
      base64_char (unat b mod 16 * 4), CHR ''='']"
| "base64 (a # b # c # rest) =
     [base64_char (unat a div 4), base64_char (unat a mod 4 * 16 + unat b div 16),
      base64_char (unat b mod 16 * 4 + unat c div 64), base64_char (unat c mod 64)]
     @ base64 rest"

definition data_url :: "string \<Rightarrow> blob \<Rightarrow> string" where
  "data_url mediaType b = ''data:'' @ mediaType @ '';base64,'' @ base64 (content b)"

definition sent :: "blob \<Rightarrow> request" where
  "sent b =
     \<lparr>mimeType = (if mime b = [] then ''audio/mp3'' else mime b),
      data = Some (base64 (content b))\<rparr>"

definition raw_id :: "env \<Rightarrow> event list \<Rightarrow> nat \<Rightarrow> string" where
  "raw_id env tr index =
     ''seg-'' @ Int_toString (Date_now env tr index) @ ''-'' @ Int_toString (int index)"

text \<open>
  The shape the request asks of the reply (\<open>RESPONSE_SCHEMA\<close>): an array of objects with the
  four required properties, two numbers and two strings. The three messages of lines 109,
  115 and 118 are the format errors.
\<close>

definition is_array :: "json \<Rightarrow> bool" where
  "is_array v = (case v of JArr items \<Rightarrow> True | _ \<Rightarrow> False)"

definition item_conforms :: "json \<Rightarrow> bool" where
  "item_conforms item =
     (case item of
        JObj kvs \<Rightarrow>
          (case (map_of kvs ''startTime'', map_of kvs ''endTime'',
                 map_of kvs ''originalText'', map_of kvs ''translatedText'') of
             (Some (JNum s), Some (JNum e), Some (JStr original), Some (JStr translated)) \<Rightarrow> True
           | _ \<Rightarrow> False)
      | _ \<Rightarrow> False)"

definition conforms_schema :: "json \<Rightarrow> bool" where
  "conforms_schema v = (case v of JArr items \<Rightarrow> list_all item_conforms items | _ \<Rightarrow> False)"

definition format_error :: "js_error + segment list \<Rightarrow> bool" where
  "format_error r =
     (r = Inl (Error ''No response text received.'')
      \<or> r = Inl (Error ''Failed to parse JSON response.'')
      \<or> r = Inl (Error ''Model response was not an array.''))"

definition segment_of_item :: "env \<Rightarrow> event list \<Rightarrow> nat \<Rightarrow> json \<Rightarrow> segment" where
  "segment_of_item env tr index item =
     \<lparr>seg_id = ''seg-'' @ Int_toString (Date_now env tr index) @ ''-'' @ Int_toString (int index),
      startTime = get_prop item ''startTime'',
      endTime = get_prop item ''endTime'',
      originalText = get_prop item ''originalText'',
      translatedText = get_prop item ''translatedText''\<rparr>"

subsection \<open>Concrete environments\<close>

definition quoted :: "string \<Rightarrow> string" where
  "quoted s = CHR 0x22 # s @ [CHR 0x22]"

definition reply_text :: string where
  "reply_text = ''[{'' @ quoted ''startTime'' @ '':0,'' @ quoted ''endTime'' @ '':5,''
     @ quoted ''originalText'' @ '':'' @ quoted ''hello'' @ '',''
     @ quoted ''translatedText'' @ '':'' @ quoted ''ni hao'' @ ''}]''"

definition reply_json :: json where
  "reply_json = JArr [JObj [(''startTime'', JNum 0), (''endTime'', JNum 5),
     (''originalText'', JStr ''hello''), (''translatedText'', JStr ''ni hao'')]]"

text \<open>A service that answers every call with one segment from 0 to 5 seconds, a clock that
  stands at 1000, a reader that gives the data URL of the blob it reads, and a decoder that
  finds 150 seconds of audio, rendered as silence.\<close>

definition env_ok :: env where
  "env_ok =
     \<lparr>API_KEY = Some ''key'',
      readAsDataURL = (\<lambda>b. Inr (data_url (mime b) b)),
      decodeAudioData = (\<lambda>b. Inr 150),
      startRendering = (\<lambda>b frames. Inr (\<lambda>i. 0)),
      generateContent = (\<lambda>tr req. Inr (Some reply_text)),
      JSON_parse = (\<lambda>s. if s = reply_text then Some reply_json
                          else if s = ''[{}]'' then Some (JArr [JObj []]) else None),
      Date_now = (\<lambda>tr index. 1000),
      fraction_toString = (\<lambda>x. []),
      engine_sort = (\<lambda>xs. xs)\<rparr>"

text \<open>The same, but the second remote call fails; every remote call fails with a transport
  error; the reply is an array holding an empty object; the decoded audio has no duration.\<close>

definition env_second_fails :: env where
  "env_second_fails =
     env_ok\<lparr>generateContent :=
       (\<lambda>tr req. if length (calls tr) = 1 then Inl (Error ''Rpc failed'')
                  else Inr (Some reply_text))\<rparr>"

definition env_rpc_fails :: env where
  "env_rpc_fails = env_ok\<lparr>generateContent := (\<lambda>tr req. Inl (Error ''Rpc failed''))\<rparr>"

definition env_empty_object :: env where
  "env_empty_object = env_ok\<lparr>generateContent := (\<lambda>tr req. Inr (Some ''[{}]''))\<rparr>"

definition env_zero_duration :: env where
  "env_zero_duration = env_ok\<lparr>decodeAudioData := (\<lambda>b. Inr 0)\<rparr>"

text \<open>The decoded audio is a single frame at 48 kHz: its duration is the double next to
  \<open>1 / 48000\<close>.\<close>

definition env_one_frame :: env where
  "env_one_frame = env_ok\<lparr>decodeAudioData := (\<lambda>b. Inr (fl (1 / 48000)))\<rparr>"

definition audio_150 :: audio where
  "audio_150 = \<lparr>duration = 150, channelData = map (\<lambda>i. 0) [0 ..< 2400000]\<rparr>"

text \<open>The segment of that reply as \<open>processSingleChunk\<close> returns it, the segment of the
  reply \<open>[{}]\<close>, a file of three bytes (\<open>ID3\<close>), the request that carries it, and a file of
  2621440 bytes.\<close>

definition reply_segment :: segment where
  "reply_segment =
     \<lparr>seg_id = ''seg-1000-0'', startTime = Val (JNum 0), endTime = Val (JNum 5),
      originalText = Val (JStr ''hello''), translatedText = Val (JStr ''ni hao'')\<rparr>"

definition undefined_segment :: segment where
  "undefined_segment =
     \<lparr>seg_id = ''seg-1000-0'', startTime = Undefined, endTime = Undefined,
      originalText = Undefined, translatedText = Undefined\<rparr>"

definition mpeg_request :: request where
  "mpeg_request = \<lparr>mimeType = ''audio/mpeg'', data = Some ''SUQz''\<rparr>"

definition small_file :: blob where
  "small_file = \<lparr>content = [73, 68, 51], mime = ''audio/mpeg''\<rparr>"

definition large_file :: blob where
  "large_file = \<lparr>content = replicate 2621440 0, mime = ''audio/mpeg''\<rparr>"


section \<open>Properties\<close>

subsection \<open>Double precision\<close>

text \<open>An integer below \<open>2^53\<close> in magnitude is a double: rounding leaves it as it is. So the
  sums \<open>currentTime + 60\<close> of the window cursor and the products \<open>currentTime * 16000\<close> at a
  window start are exact.\<close>

lemma round_half_even_of_int: "round_half_even (of_int k) = k"
  by (simp add: round_half_even_def)

lemma binade_le:
  assumes "\<bar>x\<bar> < 2 ^ 53"
  shows "binade x \<le> 52"
proof (cases "\<bar>x\<bar> < 2 powi (- 1022)")
  case True
  then show ?thesis by (simp add: binade_def)
next
  case False
  let ?S = "Set.filter (\<lambda>e. 2 powi e \<le> \<bar>x\<bar>) {- 1022 .. 1023}"
  have fin: "finite ?S" by (rule finite_subset[where B = "{- 1022 .. 1023}"]) auto
  have ne: "?S \<noteq> {}"
  proof -
    have "- 1022 \<in> ?S" using False by simp
    then show ?thesis by blast
  qed
  have "Max ?S \<in> ?S" using Max_in[OF fin ne] .
  then have le: "(2::rat) powi (Max ?S) \<le> \<bar>x\<bar>" by simp
  have "(2::rat) powi (Max ?S) < 2 powi 53"
    using le assms by (simp add: power_int_def)
  then have "Max ?S < 53"
    by (rule power_int_le_imp_less_exp[rotated]) simp_all
  then show ?thesis using False by (simp add: binade_def)
qed

lemma fl_of_int:
  assumes "\<bar>n\<bar> < 2 ^ 53"
  shows "fl (of_int n) = of_int n"
proof -
  have "\<bar>of_int n :: rat\<bar> < 2 ^ 53"
  proof -
    have "\<bar>of_int n :: rat\<bar> = of_int \<bar>n\<bar>" by simp
    also have "\<dots> < of_int (2 ^ 53)" using assms by (simp only: of_int_less_iff)
    finally show ?thesis by simp
  qed
  then have b: "binade (of_int n) \<le> 52" by (rule binade_le)
  define k where "k = nat (52 - binade (of_int n))"
  have q: "(2::rat) powi (binade (of_int n) - 52) = 1 / 2 ^ k"
    using b by (simp add: power_int_def k_def field_simps)
  have "of_int n / (1 / 2 ^ k) = (of_int (n * 2 ^ k) :: rat)" by simp
  then have "round_half_even (of_int n / (1 / 2 ^ k)) = n * 2 ^ k"
    by (simp only: round_half_even_of_int)
  then show ?thesis
    by (simp add: fl_def q Let_def)
qed

lemma fl_0 [simp]: "fl 0 = 0"
  using fl_of_int[of 0] by simp

lemma fl_numeral: "numeral n < (2::int) ^ 53 \<Longrightarrow> fl (numeral n) = numeral n"
  using fl_of_int[of "numeral n"] by simp

lemma fl_of_nat: "n < 2 ^ 53 \<Longrightarrow> fl (of_nat n) = of_nat n"
  using fl_of_int[of "int n"] by simp

text \<open>A number that is not below the smallest normal double is not rounded to zero.\<close>

lemma round_half_even_ge: "\<lfloor>y\<rfloor> \<le> round_half_even y"
  by (simp add: round_half_even_def Let_def)

lemma binade_lower:
  assumes "2 powi (- 1022) \<le> \<bar>x\<bar>"
  shows "2 powi (binade x) \<le> \<bar>x\<bar>"
proof -
  let ?S = "Set.filter (\<lambda>e. 2 powi e \<le> \<bar>x\<bar>) {- 1022 .. 1023}"
  have fin: "finite ?S" by (rule finite_subset[where B = "{- 1022 .. 1023}"]) auto
  have "- 1022 \<in> ?S" using assms by simp
  then have ne: "?S \<noteq> {}" by blast
  have "Max ?S \<in> ?S" using Max_in[OF fin ne] .
  then have "(2::rat) powi (Max ?S) \<le> \<bar>x\<bar>" by simp
  then show ?thesis using assms by (simp add: binade_def)
qed

lemma fl_pos:
  assumes "2 powi (- 1022) \<le> x"
  shows "0 < fl x"
proof -
  have x: "0 < x"
  proof -
    have "(0::rat) < 2 powi (- 1022)" by simp
    then show ?thesis using assms by linarith
  qed
  define q :: rat where "q = 2 powi (binade x - 52)"
  have q: "0 < q" by (simp add: q_def)
  have "2 powi (binade x) \<le> x" using binade_lower[of x] assms x by simp
  moreover have "(2::rat) powi (binade x) = q * 2 ^ 52"
    by (simp add: q_def power_int_diff)
  ultimately have "2 ^ 52 \<le> x / q" using q by (simp add: pos_le_divide_eq mult.commute)
  moreover have "(1::rat) \<le> 2 ^ 52" by simp
  ultimately have "1 \<le> x / q" by (rule order_trans[rotated])
  then have "1 \<le> \<lfloor>x / q\<rfloor>" by simp
  then have "1 \<le> round_half_even (x / q)" using round_half_even_ge[of "x / q"] by linarith
  then have "0 < (of_int (round_half_even (x / q)) :: rat) * q" using q by simp
  then show ?thesis by (simp add: fl_def q_def Let_def)
qed

lemma fl_frames_pos:
  assumes "0 < frames"
  shows "0 < fl (of_nat frames / 16000)"
proof (rule fl_pos)
  have "(2::rat) powi (- 1022) \<le> 2 powi (- 14)"
    by (rule power_int_increasing) simp_all
  also have "\<dots> \<le> 1 / 16000" by (simp add: power_int_def power_divide)
  also have "\<dots> \<le> of_nat frames / 16000"
    using assms by (simp add: divide_le_cancel)
  finally show "(2::rat) powi (- 1022) \<le> of_nat frames / 16000" .
qed

text \<open>Rounding does not pass a power of two.\<close>

lemma round_half_even_le:
  assumes "y \<le> of_int N"
  shows "round_half_even y \<le> N"
proof -
  have f: "\<lfloor>y\<rfloor> \<le> N" using assms by (simp add: floor_le_iff)
  show ?thesis
  proof (cases "\<lfloor>y\<rfloor> = N")
    case True
    then have "y - of_int \<lfloor>y\<rfloor> \<le> 0" using assms by simp
    then show ?thesis using True by (simp add: round_half_even_def Let_def)
  next
    case False
    then have "\<lfloor>y\<rfloor> + 1 \<le> N" using f by simp
    then show ?thesis by (simp add: round_half_even_def Let_def)
  qed
qed

lemma fl_le_powi:
  assumes "0 \<le> x" and "x \<le> 2 powi k" and "- 1022 \<le> k"
  shows "fl x \<le> 2 powi k"
proof -
  have e: "binade x \<le> k"
  proof (cases "\<bar>x\<bar> < 2 powi (- 1022)")
    case True
    then show ?thesis using assms(3) by (simp add: binade_def)
  next
    case False
    then have "2 powi (binade x) \<le> \<bar>x\<bar>" by (intro binade_lower) simp
    then have "(2::rat) powi (binade x) \<le> 2 powi k" using assms by simp
    then show ?thesis
      using power_int_strict_increasing[of k "binade x" "2::rat"]
      by (cases "binade x \<le> k") auto
  qed
  define q :: rat where "q = 2 powi (binade x - 52)"
  define m where "m = nat (k - binade x + 52)"
  have q: "0 < q" by (simp add: q_def)
  have "(2::rat) powi k = q * 2 powi (k - binade x + 52)"
    by (simp add: q_def flip: power_int_add)
  also have "(2::rat) powi (k - binade x + 52) = 2 ^ m"
    using e by (simp add: m_def power_int_def)
  finally have p: "(2::rat) powi k = q * 2 ^ m" by simp
  have "x / q \<le> 2 ^ m" using assms(2) q by (simp add: p pos_divide_le_eq mult.commute)
  then have "x / q \<le> of_int (2 ^ m)" by simp
  then have "round_half_even (x / q) \<le> 2 ^ m" by (rule round_half_even_le)
  then have "(of_int (round_half_even (x / q)) :: rat) \<le> of_int (2 ^ m)"
    by (simp only: of_int_le_iff)
  then have "of_int (round_half_even (x / q)) * q \<le> 2 ^ m * q"
    using q by simp
  then show ?thesis by (simp add: fl_def Let_def p mult.commute flip: q_def)
qed

lemma fl_le_power:
  assumes "0 \<le> x" and "x \<le> 2 ^ k"
  shows "fl x \<le> 2 ^ k"
  using fl_le_powi[of x "int k"] assms by simp

lemma fl_le_int:
  assumes "\<bar>x\<bar> < 2 ^ 53" and "x \<le> of_int M"
  shows "fl x \<le> of_int M"
proof -
  have b: "binade x \<le> 52" using assms(1) by (rule binade_le)
  define k where "k = nat (52 - binade x)"
  have q: "(2::rat) powi (binade x - 52) = 1 / 2 ^ k"
    using b by (simp add: power_int_def k_def field_simps)
  have "x * 2 ^ k \<le> of_int M * 2 ^ k" using assms(2) by simp
  then have "x / (1 / 2 ^ k) \<le> of_int (M * 2 ^ k)" by simp
  then have "round_half_even (x / (1 / 2 ^ k)) \<le> M * 2 ^ k" by (rule round_half_even_le)
  then have "(of_int (round_half_even (x / (1 / 2 ^ k))) :: rat) \<le> of_int (M * 2 ^ k)"
    by (simp only: of_int_le_iff)
  then have "(of_int (round_half_even (x / (1 / 2 ^ k))) :: rat) / 2 ^ k \<le> of_int M"
    by (simp add: pos_divide_le_eq)
  then show ?thesis by (simp add: fl_def q Let_def)
qed

lemma fl_nonneg:
  assumes "0 \<le> x"
  shows "0 \<le> fl x"
proof -
  have "0 \<le> x / 2 powi (binade x - 52)" using assms by simp
  then have "0 \<le> \<lfloor>x / 2 powi (binade x - 52)\<rfloor>" by simp
  then have "0 \<le> round_half_even (x / 2 powi (binade x - 52))"
    using round_half_even_ge[of "x / 2 powi (binade x - 52)"] by linarith
  then show ?thesis by (simp add: fl_def Let_def)
qed

lemma cursor_sum_exact:
  "60 * k + 60 < 2 ^ 53 \<Longrightarrow> fl (60 * of_nat k + 60) = 60 * of_nat k + 60"
  using fl_of_nat[of "60 * k + 60"] by simp

lemma cursor_product_exact:
  "960000 * k < 2 ^ 53 \<Longrightarrow> fl (60 * of_nat k * 16000) = 960000 * of_nat k"
  using fl_of_nat[of "960000 * k"] by simp

subsection \<open>The WAV encoder\<close>



lemma store_append:
  "length pre = off \<Longrightarrow> length bs \<le> length rest \<Longrightarrow>
   store (pre @ rest) off bs = Inr ((pre @ bs) @ drop (length bs) rest)"
  by (simp add: store_def)

lemma setUint8_append:
  "length pre = off \<Longrightarrow> rest \<noteq> [] \<Longrightarrow>
   setUint8 (pre @ rest) off v = Inr ((pre @ [of_int v]) @ tl rest)"
  by (cases rest) (simp_all add: setUint8_def store_def)

lemma writeString_append:
  "length pre = off \<Longrightarrow> length s \<le> length rest \<Longrightarrow>
   writeString (pre @ rest) off s = Inr ((pre @ map (\<lambda>c. of_int (of_char c)) s) @ drop (length s) rest)"
proof (induction s arbitrary: pre off rest)
  case Nil
  then show ?case by simp
next
  case (Cons c cs)
  then obtain r rs where rest: "rest = r # rs" by (cases rest) auto
  have "setUint8 (pre @ rest) off (of_char c) = Inr ((pre @ [of_int (of_char c)]) @ rs)"
    using Cons.prems rest by (simp add: setUint8_append)
  moreover have "writeString ((pre @ [of_int (of_char c)]) @ rs) (Suc off) cs
      = Inr (((pre @ [of_int (of_char c)]) @ map (\<lambda>c. of_int (of_char c)) cs) @ drop (length cs) rs)"
    using Cons.prems rest by (intro Cons.IH) simp_all
  ultimately show ?case using rest by (simp add: bind_result_def)
qed

lemma writeSamples_append:
  "length pre = off \<Longrightarrow> 2 * length xs \<le> length rest \<Longrightarrow>
   writeSamples (pre @ rest) off xs
     = Inr ((pre @ concat (map (\<lambda>x. bytes16 (sample16 x)) xs)) @ drop (2 * length xs) rest)"
proof (induction xs arbitrary: pre off rest)
  case Nil
  then show ?case by simp
next
  case (Cons x xs)
  let ?b = "bytes16 (sample16 x)"
  have lb: "length ?b = 2" by (simp add: bytes16_def)
  have 1: "setInt16 (pre @ rest) off (let s = max (- 1) (min 1 x) in if s < 0 then s * 32768 else s * 32767) True
     = Inr ((pre @ ?b) @ drop 2 rest)"
    using Cons.prems lb store_append[of pre off ?b rest] by (simp add: setInt16_def sample16_def)
  have 2: "writeSamples ((pre @ ?b) @ drop 2 rest) (off + 2) xs
     = Inr (((pre @ ?b) @ concat (map (\<lambda>x. bytes16 (sample16 x)) xs)) @ drop (2 * length xs) (drop 2 rest))"
    using Cons.prems lb by (intro Cons.IH) simp_all
  show ?case using 1 2 by (simp add: bind_result_def Let_def add.commute)
qed



lemma length_bytes16 [simp]: "length (bytes16 w) = 2" by (simp add: bytes16_def)
lemma length_bytes32 [simp]: "length (bytes32 w) = 4" by (simp add: bytes32_def)
lemma length_ascii [simp]: "length (ascii s) = length s" by (simp add: ascii_def)

lemma store_zeros:
  "length pre = off \<Longrightarrow> length bs \<le> n \<Longrightarrow>
   store (pre @ replicate n 0) off bs = Inr ((pre @ bs) @ replicate (n - length bs) 0)"
  using store_append[of pre off bs "replicate n 0"] by simp

lemma writeString_zeros:
  "length pre = off \<Longrightarrow> length s \<le> n \<Longrightarrow>
   writeString (pre @ replicate n 0) off s = Inr ((pre @ ascii s) @ replicate (n - length s) 0)"
  using writeString_append[of pre off s "replicate n 0"] by (simp add: ascii_def)

lemma setUint32_zeros:
  "length pre = off \<Longrightarrow> 4 \<le> n \<Longrightarrow>
   setUint32 (pre @ replicate n 0) off v True = Inr ((pre @ bytes32 (of_int v)) @ replicate (n - 4) 0)"
  using store_zeros[of pre off "bytes32 (of_int v)" n] by (simp add: setUint32_def)

lemma setUint16_zeros:
  "length pre = off \<Longrightarrow> 2 \<le> n \<Longrightarrow>
   setUint16 (pre @ replicate n 0) off v True = Inr ((pre @ bytes16 (of_int v)) @ replicate (n - 2) 0)"
  using store_zeros[of pre off "bytes16 (of_int v)" n] by (simp add: setUint16_def)

lemma writeSamples_zeros:
  "length pre = off \<Longrightarrow>
   writeSamples (pre @ replicate (2 * length xs) 0) off xs
     = Inr (pre @ concat (map (\<lambda>x. bytes16 (sample16 x)) xs))"
  using writeSamples_append[of pre off xs "replicate (2 * length xs) 0"] by simp

lemma encodeWAV_eq:
  "encodeWAV samples sampleRate =
     Inr \<lparr>content = wav_header (length samples) sampleRate
                      @ concat (map (\<lambda>x. bytes16 (sample16 x)) samples),
          mime = ''audio/wav''\<rparr>"
proof -
  define n where "n = 2 * length samples"
  define z where "z k = replicate k (0::byte)" for k
  define h1 where "h1 = ascii ''RIFF''"
  define h2 where "h2 = h1 @ bytes32 (of_int (36 + int (length samples) * 2))"
  define h3 where "h3 = h2 @ ascii ''WAVE''"
  define h4 where "h4 = h3 @ ascii ''fmt ''"
  define h5 where "h5 = h4 @ bytes32 (of_int 16)"
  define h6 where "h6 = h5 @ bytes16 (of_int 1)"
  define h7 where "h7 = h6 @ bytes16 (of_int 1)"
  define h8 where "h8 = h7 @ bytes32 (of_int sampleRate)"
  define h9 where "h9 = h8 @ bytes32 (of_int (sampleRate * 2))"
  define h10 where "h10 = h9 @ bytes16 (of_int 2)"
  define h11 where "h11 = h10 @ bytes16 (of_int 16)"
  define h12 where "h12 = h11 @ ascii ''data''"
  define h13 where "h13 = h12 @ bytes32 (of_int (int (length samples) * 2))"
  note hs = h1_def h2_def h3_def h4_def h5_def h6_def h7_def h8_def h9_def h10_def h11_def
    h12_def h13_def
  have s1: "writeString (z (44 + n)) 0 ''RIFF'' = Inr (h1 @ z (40 + n))"
    using writeString_zeros[of "[]" 0 "''RIFF''" "44 + n"] by (simp add: z_def h1_def)
  have s2: "setUint32 (h1 @ z (40 + n)) 4 (36 + int (length samples) * 2) True = Inr (h2 @ z (36 + n))"
    unfolding z_def h2_def by (subst setUint32_zeros) (simp_all add: hs)
  have s3: "writeString (h2 @ z (36 + n)) 8 ''WAVE'' = Inr (h3 @ z (32 + n))"
    unfolding z_def h3_def by (subst writeString_zeros) (simp_all add: hs)
  have s4: "writeString (h3 @ z (32 + n)) 12 ''fmt '' = Inr (h4 @ z (28 + n))"
    unfolding z_def h4_def by (subst writeString_zeros) (simp_all add: hs)
  have s5: "setUint32 (h4 @ z (28 + n)) 16 16 True = Inr (h5 @ z (24 + n))"
    unfolding z_def h5_def by (subst setUint32_zeros) (simp_all add: hs)
  have s6: "setUint16 (h5 @ z (24 + n)) 20 1 True = Inr (h6 @ z (22 + n))"
    unfolding z_def h6_def by (subst setUint16_zeros) (simp_all add: hs)
  have s7: "setUint16 (h6 @ z (22 + n)) 22 1 True = Inr (h7 @ z (20 + n))"
    unfolding z_def h7_def by (subst setUint16_zeros) (simp_all add: hs)
  have s8: "setUint32 (h7 @ z (20 + n)) 24 sampleRate True = Inr (h8 @ z (16 + n))"
    unfolding z_def h8_def by (subst setUint32_zeros) (simp_all add: hs)
  have s9: "setUint32 (h8 @ z (16 + n)) 28 (sampleRate * 2) True = Inr (h9 @ z (12 + n))"
    unfolding z_def h9_def by (subst setUint32_zeros) (simp_all add: hs)
  have s10: "setUint16 (h9 @ z (12 + n)) 32 2 True = Inr (h10 @ z (10 + n))"
    unfolding z_def h10_def by (subst setUint16_zeros) (simp_all add: hs)
  have s11: "setUint16 (h10 @ z (10 + n)) 34 16 True = Inr (h11 @ z (8 + n))"
    unfolding z_def h11_def by (subst setUint16_zeros) (simp_all add: hs)
  have s12: "writeString (h11 @ z (8 + n)) 36 ''data'' = Inr (h12 @ z (4 + n))"
    unfolding z_def h12_def by (subst writeString_zeros) (simp_all add: hs)
  have s13: "setUint32 (h12 @ z (4 + n)) 40 (int (length samples) * 2) True = Inr (h13 @ z n)"
    unfolding z_def h13_def by (subst setUint32_zeros) (simp_all add: hs)
  have s14: "writeSamples (h13 @ z n) 44 samples
      = Inr (h13 @ concat (map (\<lambda>x. bytes16 (sample16 x)) samples))"
    unfolding z_def n_def by (rule writeSamples_zeros) (simp add: hs)
  have h13: "h13 = wav_header (length samples) sampleRate"
    by (simp add: hs wav_header_def)
  have "encodeWAV samples sampleRate
      = Inr \<lparr>content = h13 @ concat (map (\<lambda>x. bytes16 (sample16 x)) samples),
             mime = ''audio/wav''\<rparr>"
    unfolding encodeWAV_def Let_def bind_result_def
    using s1 s2 s3 s4 s5 s6 s7 s8 s9 s10 s11 s12 s13 s14
    by (simp only: z_def n_def mult.commute sum.case)
  then show ?thesis by (simp only: h13)
qed



lemma unat_byte_of_drop16:
  "unat (ucast (drop_bit k (w :: 16 word)) :: byte) = unat w div 2 ^ k mod 256"
proof -
  have "unat (ucast (drop_bit k w) :: byte) = take_bit 8 (unat (drop_bit k w))"
    by (simp only: unsigned_ucast_eq) simp
  also have "\<dots> = unat (drop_bit k w) mod 256"
    by (simp add: take_bit_eq_mod)
  also have "unat (drop_bit k w) = drop_bit k (unat w)"
    by (rule unat_drop_bit_eq)
  also have "drop_bit k (unat w) = unat w div 2 ^ k"
    by (rule drop_bit_eq_div)
  finally show ?thesis .
qed

lemma unat_byte_of_drop32:
  "unat (ucast (drop_bit k (w :: 32 word)) :: byte) = unat w div 2 ^ k mod 256"
proof -
  have "unat (ucast (drop_bit k w) :: byte) = take_bit 8 (unat (drop_bit k w))"
    by (simp only: unsigned_ucast_eq) simp
  also have "\<dots> = unat (drop_bit k w) mod 256"
    by (simp add: take_bit_eq_mod)
  also have "unat (drop_bit k w) = drop_bit k (unat w)"
    by (rule unat_drop_bit_eq)
  also have "drop_bit k (unat w) = unat w div 2 ^ k"
    by (rule drop_bit_eq_div)
  finally show ?thesis .
qed

lemma split_bytes2: "n < 65536 \<Longrightarrow> n mod 256 + 256 * (n div 256 mod 256) = (n::nat)"
proof -
  assume "n < 65536"
  then have "n div 256 < 256" by simp
  then have "n div 256 mod 256 = n div 256" by simp
  then show ?thesis by simp
qed

lemma split_bytes4:
  "n < 4294967296 \<Longrightarrow>
   n mod 256 + 256 * (n div 256 mod 256) + 65536 * (n div 65536 mod 256)
     + 16777216 * (n div 16777216 mod 256) = (n::nat)"
proof -
  assume b: "n < 4294967296"
  define a where "a = n div 256"
  define c where "c = a div 256"
  define d where "d = c div 256"
  have n: "n = n mod 256 + 256 * a" by (simp add: a_def)
  have a: "a = a mod 256 + 256 * c" by (simp add: c_def)
  have c: "c = c mod 256 + 256 * d" by (simp add: d_def)
  have c': "c = n div 65536" by (simp add: c_def a_def div_mult2_eq)
  have d': "d = n div 16777216" by (simp add: d_def c' div_mult2_eq)
  have "d < 256" using b by (simp add: d')
  then have d: "d mod 256 = d" by simp
  have "n mod 256 + 256 * (a mod 256) + 65536 * (c mod 256) + 16777216 * (d mod 256) = n"
    using n a c d by linarith
  then show ?thesis by (simp only: a_def[symmetric] c'[symmetric] d'[symmetric])
qed

lemma getUint16_bytes16: "getUint16 (bytes16 w) 0 = unat w"
proof -
  have b: "unat w < 65536" using unsigned_less[of w, where ?'a = nat] by simp
  have 0: "unat (ucast w :: byte) = unat w mod 256"
    using unat_byte_of_drop16[of 0 w] by simp
  have 1: "unat (ucast (drop_bit 8 w) :: byte) = unat w div 256 mod 256"
    using unat_byte_of_drop16[of 8 w] by simp
  have "getUint16 (bytes16 w) 0 = unat w mod 256 + 256 * (unat w div 256 mod 256)"
    unfolding getUint16_def bytes16_def by (simp only: 0 1 nth_Cons_0 One_nat_def nth_Cons_Suc add_0)
  also have "\<dots> = unat w" using b by (rule split_bytes2)
  finally show ?thesis .
qed

lemma getUint32_bytes32: "getUint32 (bytes32 w) 0 = unat w"
proof -
  have b: "unat w < 4294967296" using unsigned_less[of w, where ?'a = nat] by simp
  have 0: "unat (ucast w :: byte) = unat w mod 256"
    using unat_byte_of_drop32[of 0 w] by simp
  have 1: "unat (ucast (drop_bit 8 w) :: byte) = unat w div 256 mod 256"
    using unat_byte_of_drop32[of 8 w] by simp
  have 2: "unat (ucast (drop_bit 16 w) :: byte) = unat w div 65536 mod 256"
    using unat_byte_of_drop32[of 16 w] by simp
  have 3: "unat (ucast (drop_bit 24 w) :: byte) = unat w div 16777216 mod 256"
    using unat_byte_of_drop32[of 24 w] by simp
  have n: "[a, b, c, d] ! 0 = a" "[a, b, c, d] ! (0 + 1) = b" "[a, b, c, d] ! (0 + 2) = c"
    "[a, b, c, d] ! (0 + 3) = d" for a b c d :: byte
    by simp_all
  have "getUint32 (bytes32 w) 0 = unat w mod 256 + 256 * (unat w div 256 mod 256)
      + 65536 * (unat w div 65536 mod 256) + 16777216 * (unat w div 16777216 mod 256)"
    unfolding getUint32_def bytes32_def by (simp only: 0 1 2 3 n)
  also have "\<dots> = unat w" using b by (rule split_bytes4)
  finally show ?thesis .
qed

lemma getUint16_at:
  "length pre = off \<Longrightarrow> getUint16 (pre @ bytes16 w @ rest) off = unat w"
  using getUint16_bytes16[of w]
  by (simp add: getUint16_def nth_append bytes16_def)

lemma getUint32_at:
  "length pre = off \<Longrightarrow> getUint32 (pre @ bytes32 w @ rest) off = unat w"
  using getUint32_bytes32[of w]
  by (simp add: getUint32_def nth_append bytes32_def)



lemma unat_of_int32: "unat (of_int v :: 32 word) = nat (v mod 4294967296)"
  by (simp add: unsigned_of_int take_bit_eq_mod)

lemma unat_of_int16: "unat (of_int v :: 16 word) = nat (v mod 65536)"
  by (simp add: unsigned_of_int take_bit_eq_mod)

lemma length_wav_header [simp]: "length (wav_header n r) = 44"
  by (simp add: wav_header_def)

lemma length_payload [simp]: "length (concat (map (\<lambda>x. bytes16 (f x)) xs)) = 2 * length xs"
  by (induction xs) simp_all


lemma pcm16_bounds: "- 32768 \<le> pcm16 x \<and> pcm16 x \<le> 32767"
proof -
  define c where "c = max (- 1) (min 1 x)"
  have c: "- 1 \<le> c" "c \<le> 1" by (simp_all add: c_def)
  show ?thesis
  proof (cases "c < 0")
    case True
    define y where "y = - (c * 32768)"
    have "0 \<le> y" "y \<le> 32768" using True c by (simp_all add: y_def)
    then have "\<lfloor>0::rat\<rfloor> \<le> \<lfloor>y\<rfloor>" "\<lfloor>y\<rfloor> \<le> \<lfloor>32768::rat\<rfloor>"
      by (simp_all only: floor_mono)
    then have "0 \<le> \<lfloor>y\<rfloor>" "\<lfloor>y\<rfloor> \<le> 32768" by simp_all
    moreover have "pcm16 x = - \<lfloor>y\<rfloor>"
      using True by (simp add: pcm16_def c_def[symmetric] y_def)
    ultimately show ?thesis by linarith
  next
    case False
    define y where "y = c * 32767"
    have "0 \<le> y" "y \<le> 32767" using False c by (simp_all add: y_def)
    then have "\<lfloor>0::rat\<rfloor> \<le> \<lfloor>y\<rfloor>" "\<lfloor>y\<rfloor> \<le> \<lfloor>32767::rat\<rfloor>"
      by (simp_all only: floor_mono)
    then have "0 \<le> \<lfloor>y\<rfloor>" "\<lfloor>y\<rfloor> \<le> 32767" by simp_all
    moreover have "pcm16 x = \<lfloor>y\<rfloor>"
      using False by (simp add: pcm16_def c_def[symmetric] y_def)
    ultimately show ?thesis by linarith
  qed
qed

lemma sample16_eq: "sample16 x = of_int (pcm16 x)"
  by (simp add: sample16_def pcm16_def js_trunc_def Let_def)

lemma getInt16_bytes16_of_int:
  assumes "- 32768 \<le> v" "v \<le> 32767" "length pre = off"
  shows "getInt16 (pre @ bytes16 (of_int v) @ rest) off = v"
proof -
  have u: "getUint16 (pre @ bytes16 (of_int v) @ rest) off = nat (v mod 65536)"
    using assms(3) by (simp add: getUint16_at unat_of_int16)
  show ?thesis
  proof (cases "0 \<le> v")
    case True
    then have "v mod 65536 = v" using assms by simp
    then show ?thesis using True assms by (simp add: getInt16_def u Let_def)
  next
    case False
    then have "v mod 65536 = v + 65536" using assms
      by (smt (verit) mod_add_self2 mod_pos_pos_trivial)
    then show ?thesis using False assms by (simp add: getInt16_def u Let_def)
  qed
qed

lemma payload_sample:
  assumes "i < length samples"
  shows "getInt16 (wav_header n r @ concat (map (\<lambda>x. bytes16 (sample16 x)) samples)) (44 + 2 * i)
          = pcm16 (samples ! i)"
proof -
  let ?f = "\<lambda>x. bytes16 (sample16 x)"
  have "samples = take i samples @ samples ! i # drop (Suc i) samples"
    using assms by (rule id_take_nth_drop)
  then have "concat (map ?f samples)
      = concat (map ?f (take i samples)) @ bytes16 (of_int (pcm16 (samples ! i)))
          @ concat (map ?f (drop (Suc i) samples))"
    by (metis concat.simps(2) concat_append list.simps(9) map_append sample16_eq)
  then have "wav_header n r @ concat (map ?f samples)
      = (wav_header n r @ concat (map ?f (take i samples))) @ bytes16 (of_int (pcm16 (samples ! i)))
          @ concat (map ?f (drop (Suc i) samples))"
    by simp
  moreover have "length (wav_header n r @ concat (map ?f (take i samples))) = 44 + 2 * i"
    using assms by simp
  ultimately show ?thesis
    using pcm16_bounds[of "samples ! i"] by (simp only: getInt16_bytes16_of_int)
qed

lemma length_encodeWAV:
  "encodeWAV samples r = Inr b \<Longrightarrow> size_blob b = 44 + 2 * length samples"
  by (auto simp: encodeWAV_eq size_blob_def)

text \<open>
  Claim C6. \<open>encodeWAV\<close> never fails, and for every sample index \<open>i\<close> the two bytes at offset
  \<open>44 + 2 * i\<close> of its result, read as a little-endian signed 16-bit integer, are the value
  of the \<open>i\<close>-th input sample clamped to \<open>[-1, 1]\<close> and scaled by 32768 when negative and by
  32767 otherwise (the fraction of the product is dropped); that value lies in the signed
  16-bit range.
\<close>

theorem encodeWAV_payload_samples:
  "i < length samples \<Longrightarrow>
   sample_at (encodeWAV samples sampleRate) i = Some (pcm16 (samples ! i))
   \<and> - 32768 \<le> pcm16 (samples ! i) \<and> pcm16 (samples ! i) \<le> 32767"
  using pcm16_bounds[of "samples ! i"]
  by (simp add: sample_at_def encodeWAV_eq payload_sample)

theorem encodeWAV_payload_samples_witness:
  "(1::nat) < length [1 / 2, - 1 / 2, 2 :: rat]
   \<and> sample_at (encodeWAV [1 / 2, - 1 / 2, 2] 16000) 1 = Some (- 16384)"
  using encodeWAV_payload_samples [of 1 "[1 / 2, - 1 / 2, 2]" 16000]
  by (simp add: pcm16_def)

lemma header_at_4:
  "getUint32 (wav_header (length samples) r @ p) 4 = nat ((36 + int (length samples) * 2) mod 4294967296)"
proof -
  have "wav_header (length samples) r @ p = (ascii ''RIFF'') @ bytes32 (of_int (36 + int (length samples) * 2)) @ (ascii ''WAVE'' @ ascii ''fmt '' @ bytes32 (of_int (16)) @ bytes16 (of_int (1)) @ bytes16 (of_int (1)) @ bytes32 (of_int (r)) @ bytes32 (of_int (r * 2)) @ bytes16 (of_int (2)) @ bytes16 (of_int (16)) @ ascii ''data'' @ bytes32 (of_int (int (length samples) * 2)) @ p)"
    by (simp add: wav_header_def)
  moreover have "length (ascii ''RIFF'') = 4" by simp
  ultimately have "getUint32 (wav_header (length samples) r @ p) 4 = unat (of_int (36 + int (length samples) * 2) :: 32 word)"
    by (simp only: getUint32_at)
  then show ?thesis by (simp only: unat_of_int32)
qed

lemma header_at_22:
  "getUint16 (wav_header (length samples) r @ p) 22 = nat ((1) mod 65536)"
proof -
  have "wav_header (length samples) r @ p = (ascii ''RIFF'' @ bytes32 (of_int (36 + int (length samples) * 2)) @ ascii ''WAVE'' @ ascii ''fmt '' @ bytes32 (of_int (16)) @ bytes16 (of_int (1))) @ bytes16 (of_int (1)) @ (bytes32 (of_int (r)) @ bytes32 (of_int (r * 2)) @ bytes16 (of_int (2)) @ bytes16 (of_int (16)) @ ascii ''data'' @ bytes32 (of_int (int (length samples) * 2)) @ p)"
    by (simp add: wav_header_def)
  moreover have "length (ascii ''RIFF'' @ bytes32 (of_int (36 + int (length samples) * 2)) @ ascii ''WAVE'' @ ascii ''fmt '' @ bytes32 (of_int (16)) @ bytes16 (of_int (1))) = 22" by simp
  ultimately have "getUint16 (wav_header (length samples) r @ p) 22 = unat (of_int (1) :: 16 word)"
    by (simp only: getUint16_at)
  then show ?thesis by (simp only: unat_of_int16)
qed

lemma header_at_24:
  "getUint32 (wav_header (length samples) r @ p) 24 = nat ((r) mod 4294967296)"
proof -
  have "wav_header (length samples) r @ p = (ascii ''RIFF'' @ bytes32 (of_int (36 + int (length samples) * 2)) @ ascii ''WAVE'' @ ascii ''fmt '' @ bytes32 (of_int (16)) @ bytes16 (of_int (1)) @ bytes16 (of_int (1))) @ bytes32 (of_int (r)) @ (bytes32 (of_int (r * 2)) @ bytes16 (of_int (2)) @ bytes16 (of_int (16)) @ ascii ''data'' @ bytes32 (of_int (int (length samples) * 2)) @ p)"
    by (simp add: wav_header_def)
  moreover have "length (ascii ''RIFF'' @ bytes32 (of_int (36 + int (length samples) * 2)) @ ascii ''WAVE'' @ ascii ''fmt '' @ bytes32 (of_int (16)) @ bytes16 (of_int (1)) @ bytes16 (of_int (1))) = 24" by simp
  ultimately have "getUint32 (wav_header (length samples) r @ p) 24 = unat (of_int (r) :: 32 word)"
    by (simp only: getUint32_at)
  then show ?thesis by (simp only: unat_of_int32)
qed

lemma header_at_28:
  "getUint32 (wav_header (length samples) r @ p) 28 = nat ((r * 2) mod 4294967296)"
proof -
  have "wav_header (length samples) r @ p = (ascii ''RIFF'' @ bytes32 (of_int (36 + int (length samples) * 2)) @ ascii ''WAVE'' @ ascii ''fmt '' @ bytes32 (of_int (16)) @ bytes16 (of_int (1)) @ bytes16 (of_int (1)) @ bytes32 (of_int (r))) @ bytes32 (of_int (r * 2)) @ (bytes16 (of_int (2)) @ bytes16 (of_int (16)) @ ascii ''data'' @ bytes32 (of_int (int (length samples) * 2)) @ p)"
    by (simp add: wav_header_def)
  moreover have "length (ascii ''RIFF'' @ bytes32 (of_int (36 + int (length samples) * 2)) @ ascii ''WAVE'' @ ascii ''fmt '' @ bytes32 (of_int (16)) @ bytes16 (of_int (1)) @ bytes16 (of_int (1)) @ bytes32 (of_int (r))) = 28" by simp
  ultimately have "getUint32 (wav_header (length samples) r @ p) 28 = unat (of_int (r * 2) :: 32 word)"
    by (simp only: getUint32_at)
  then show ?thesis by (simp only: unat_of_int32)
qed

lemma header_at_32:
  "getUint16 (wav_header (length samples) r @ p) 32 = nat ((2) mod 65536)"
proof -
  have "wav_header (length samples) r @ p = (ascii ''RIFF'' @ bytes32 (of_int (36 + int (length samples) * 2)) @ ascii ''WAVE'' @ ascii ''fmt '' @ bytes32 (of_int (16)) @ bytes16 (of_int (1)) @ bytes16 (of_int (1)) @ bytes32 (of_int (r)) @ bytes32 (of_int (r * 2))) @ bytes16 (of_int (2)) @ (bytes16 (of_int (16)) @ ascii ''data'' @ bytes32 (of_int (int (length samples) * 2)) @ p)"
    by (simp add: wav_header_def)
  moreover have "length (ascii ''RIFF'' @ bytes32 (of_int (36 + int (length samples) * 2)) @ ascii ''WAVE'' @ ascii ''fmt '' @ bytes32 (of_int (16)) @ bytes16 (of_int (1)) @ bytes16 (of_int (1)) @ bytes32 (of_int (r)) @ bytes32 (of_int (r * 2))) = 32" by simp
  ultimately have "getUint16 (wav_header (length samples) r @ p) 32 = unat (of_int (2) :: 16 word)"
    by (simp only: getUint16_at)
  then show ?thesis by (simp only: unat_of_int16)
qed

lemma header_at_34:
  "getUint16 (wav_header (length samples) r @ p) 34 = nat ((16) mod 65536)"
proof -
  have "wav_header (length samples) r @ p = (ascii ''RIFF'' @ bytes32 (of_int (36 + int (length samples) * 2)) @ ascii ''WAVE'' @ ascii ''fmt '' @ bytes32 (of_int (16)) @ bytes16 (of_int (1)) @ bytes16 (of_int (1)) @ bytes32 (of_int (r)) @ bytes32 (of_int (r * 2)) @ bytes16 (of_int (2))) @ bytes16 (of_int (16)) @ (ascii ''data'' @ bytes32 (of_int (int (length samples) * 2)) @ p)"
    by (simp add: wav_header_def)
  moreover have "length (ascii ''RIFF'' @ bytes32 (of_int (36 + int (length samples) * 2)) @ ascii ''WAVE'' @ ascii ''fmt '' @ bytes32 (of_int (16)) @ bytes16 (of_int (1)) @ bytes16 (of_int (1)) @ bytes32 (of_int (r)) @ bytes32 (of_int (r * 2)) @ bytes16 (of_int (2))) = 34" by simp
  ultimately have "getUint16 (wav_header (length samples) r @ p) 34 = unat (of_int (16) :: 16 word)"
    by (simp only: getUint16_at)
  then show ?thesis by (simp only: unat_of_int16)
qed

lemma header_at_40:
  "getUint32 (wav_header (length samples) r @ p) 40 = nat ((int (length samples) * 2) mod 4294967296)"
proof -
  have "wav_header (length samples) r @ p = (ascii ''RIFF'' @ bytes32 (of_int (36 + int (length samples) * 2)) @ ascii ''WAVE'' @ ascii ''fmt '' @ bytes32 (of_int (16)) @ bytes16 (of_int (1)) @ bytes16 (of_int (1)) @ bytes32 (of_int (r)) @ bytes32 (of_int (r * 2)) @ bytes16 (of_int (2)) @ bytes16 (of_int (16)) @ ascii ''data'') @ bytes32 (of_int (int (length samples) * 2)) @ (p)"
    by (simp add: wav_header_def)
  moreover have "length (ascii ''RIFF'' @ bytes32 (of_int (36 + int (length samples) * 2)) @ ascii ''WAVE'' @ ascii ''fmt '' @ bytes32 (of_int (16)) @ bytes16 (of_int (1)) @ bytes16 (of_int (1)) @ bytes32 (of_int (r)) @ bytes32 (of_int (r * 2)) @ bytes16 (of_int (2)) @ bytes16 (of_int (16)) @ ascii ''data'') = 40" by simp
  ultimately have "getUint32 (wav_header (length samples) r @ p) 40 = unat (of_int (int (length samples) * 2) :: 32 word)"
    by (simp only: getUint32_at)
  then show ?thesis by (simp only: unat_of_int32)
qed


lemma encodeWAV_fields_mod:
  "(\<exists>b. encodeWAV samples r = Inr b \<and> size_blob b = 44 + 2 * length samples)
   \<and> field32 (encodeWAV samples r) 4 = Some (nat ((36 + 2 * int (length samples)) mod 2 ^ 32))
   \<and> field32 (encodeWAV samples r) 40 = Some (nat ((2 * int (length samples)) mod 2 ^ 32))
   \<and> field32 (encodeWAV samples r) 24 = Some (nat (r mod 2 ^ 32))
   \<and> field16 (encodeWAV samples r) 22 = Some 1
   \<and> field32 (encodeWAV samples r) 28 = Some (nat ((r * 2) mod 2 ^ 32))
   \<and> field16 (encodeWAV samples r) 32 = Some 2
   \<and> field16 (encodeWAV samples r) 34 = Some 16"
  by (simp add: encodeWAV_eq size_blob_def field32_def field16_def header_at_4 header_at_22
      header_at_24 header_at_28 header_at_32 header_at_34 header_at_40 mult.commute)

text \<open>
  Claim C3. For \<open>N\<close> samples at the sample rate \<open>R\<close>, \<open>encodeWAV\<close> returns a blob of \<open>44 + 2N\<close>
  bytes: a header of 44 bytes and a payload of \<open>2N\<close> bytes. Read back from the header, the
  container size is \<open>36 + 2N\<close>, the payload size \<open>2N\<close>, the sample rate \<open>R\<close>, the channel count
  1, the byte rate \<open>R * 2\<close>, the block align 2 and the bits per sample 16. The three sizes
  and rates are fields of 32 bits: the statement is for the values such a field holds,
  \<open>36 + 2N < 2^32\<close> and \<open>0 \<le> R\<close>, \<open>R * 2 < 2^32\<close>. The one call of \<open>encodeWAV\<close>, line 158,
  passes the rate 16000 and the samples of one window, at most 960000 (lemma
  \<open>encodeWAV_call_in_range\<close> below): every input that the function receives is in this
  range.
\<close>

theorem encodeWAV_header_fields:
  assumes "36 + 2 * int (length samples) < 2 ^ 32" and "0 \<le> r" and "r * 2 < 2 ^ 32"
  shows "(\<exists>b. encodeWAV samples r = Inr b \<and> size_blob b = 44 + 2 * length samples)
   \<and> field32 (encodeWAV samples r) 4 = Some (36 + 2 * length samples)
   \<and> field32 (encodeWAV samples r) 40 = Some (2 * length samples)
   \<and> field32 (encodeWAV samples r) 24 = Some (nat r)
   \<and> field16 (encodeWAV samples r) 22 = Some 1
   \<and> field32 (encodeWAV samples r) 28 = Some (nat (r * 2))
   \<and> field16 (encodeWAV samples r) 32 = Some 2
   \<and> field16 (encodeWAV samples r) 34 = Some 16"
proof -
  have 1: "nat ((36 + 2 * int (length samples)) mod 2 ^ 32) = 36 + 2 * length samples"
    using assms(1) by (simp add: nat_add_distrib nat_mult_distrib)
  have 2: "nat ((2 * int (length samples)) mod 2 ^ 32) = 2 * length samples"
    using assms(1) by (simp add: nat_mult_distrib)
  have 3: "r mod 2 ^ 32 = r" using assms(2,3) by simp
  have 4: "(r * 2) mod 2 ^ 32 = r * 2" using assms(2,3) by simp
  show ?thesis
    using encodeWAV_fields_mod[of samples r] by (simp only: 1 2 3 4)
qed

theorem encodeWAV_header_fields_witness:
  "36 + 2 * int (length [1 / 2, - 1 / 2, 2 :: rat]) < 2 ^ 32
   \<and> (0::int) \<le> 16000 \<and> (16000::int) * 2 < 2 ^ 32
   \<and> field32 (encodeWAV [1 / 2, - 1 / 2, 2] 16000) 4 = Some 42
   \<and> field32 (encodeWAV [1 / 2, - 1 / 2, 2] 16000) 40 = Some 6
   \<and> field32 (encodeWAV [1 / 2, - 1 / 2, 2] 16000) 24 = Some 16000
   \<and> field16 (encodeWAV [1 / 2, - 1 / 2, 2] 16000) 22 = Some 1
   \<and> field32 (encodeWAV [1 / 2, - 1 / 2, 2] 16000) 28 = Some 32000
   \<and> field16 (encodeWAV [1 / 2, - 1 / 2, 2] 16000) 32 = Some 2
   \<and> field16 (encodeWAV [1 / 2, - 1 / 2, 2] 16000) 34 = Some 16"
  using encodeWAV_header_fields [of "[1 / 2, - 1 / 2, 2]" 16000] by simp

subsection \<open>The windows of the slicing loop\<close>

lemma chunk_windows_done: "\<not> t < D \<Longrightarrow> chunk_windows t D = []"
  by (simp add: chunk_windows.simps)

lemma chunk_windows_step:
  "t < D \<Longrightarrow> chunk_windows t D = (t, min (t + 60) D) # chunk_windows (min (t + 60) D) D"
  by (subst chunk_windows.simps) (simp add: CHUNK_DURATION_SECONDS_def Let_def)

lemma chunk_windows_last_short:
  "t < D \<Longrightarrow> D \<le> t + 60 \<Longrightarrow> chunk_windows t D = [(t, D)]"
  by (simp add: chunk_windows_step chunk_windows_done min_def)

lemma chunk_windows_full:
  "t + 60 < D \<Longrightarrow> chunk_windows t D = (t, t + 60) # chunk_windows (t + 60) D"
  by (simp add: chunk_windows_step min_def)

lemma chunk_windows_cases [consumes 1, case_names last more]:
  assumes "t < D"
  obtains "D \<le> t + 60" "chunk_windows t D = [(t, D)]"
  | "t + 60 < D" "chunk_windows t D = (t, t + 60) # chunk_windows (t + 60) D"
  using assms chunk_windows_last_short chunk_windows_full by (cases "D \<le> t + 60") auto

lemma chunk_windows_hd: "t < D \<Longrightarrow> fst (hd (chunk_windows t D)) = t"
  by (simp add: chunk_windows_step)

lemma chunk_windows_nonempty: "t < D \<Longrightarrow> chunk_windows t D \<noteq> []"
  by (simp add: chunk_windows_step)

lemma chunk_windows_last: "t < D \<Longrightarrow> snd (last (chunk_windows t D)) = D"
proof (induction t D rule: chunk_windows.induct)
  case (1 t D)
  from "1.prems" show ?case
  proof (cases rule: chunk_windows_cases)
    case last
    then show ?thesis by simp
  next
    case more
    have "snd (last (chunk_windows (t + 60) D)) = D"
      using "1.IH"[of "t + 60"] more "1.prems" by (simp add: CHUNK_DURATION_SECONDS_def min_def)
    then show ?thesis using more chunk_windows_nonempty[of "t + 60" D] by simp
  qed
qed

lemma chunk_windows_bounds:
  "w \<in> set (chunk_windows t D) \<Longrightarrow> t \<le> fst w \<and> fst w < snd w \<and> snd w \<le> D \<and> snd w \<le> fst w + 60"
proof (induction t D arbitrary: w rule: chunk_windows.induct)
  case (1 t D)
  have lt: "t < D" using "1.prems" chunk_windows_done[of t D] by (cases "t < D") auto
  from lt show ?case
  proof (cases rule: chunk_windows_cases)
    case last
    then show ?thesis using "1.prems" lt by auto
  next
    case more
    show ?thesis
    proof (cases "w = (t, t + 60)")
      case True
      then show ?thesis using more by simp
    next
      case False
      then have "w \<in> set (chunk_windows (t + 60) D)" using "1.prems" more by simp
      then have "t + 60 \<le> fst w \<and> fst w < snd w \<and> snd w \<le> D \<and> snd w \<le> fst w + 60"
        using "1.IH"[of "t + 60" w] lt more by (simp add: CHUNK_DURATION_SECONDS_def min_def)
      then show ?thesis by simp
    qed
  qed
qed

lemma chunk_windows_contiguous:
  "Suc i < length (chunk_windows t D) \<Longrightarrow>
   snd (chunk_windows t D ! i) = fst (chunk_windows t D ! Suc i)"
proof (induction t D arbitrary: i rule: chunk_windows.induct)
  case (1 t D)
  have lt: "t < D" using "1.prems" chunk_windows_done[of t D] by (cases "t < D") auto
  from lt show ?case
  proof (cases rule: chunk_windows_cases)
    case last
    then show ?thesis using "1.prems" by simp
  next
    case more
    have IH: "Suc j < length (chunk_windows (t + 60) D) \<Longrightarrow>
       snd (chunk_windows (t + 60) D ! j) = fst (chunk_windows (t + 60) D ! Suc j)" for j
      using "1.IH"[of "t + 60" j] lt more by (simp add: CHUNK_DURATION_SECONDS_def min_def)
    show ?thesis
    proof (cases i)
      case 0
      then show ?thesis using more chunk_windows_hd[of "t + 60" D] "1.prems"
        by (simp add: hd_conv_nth chunk_windows_nonempty)
    next
      case (Suc j)
      then show ?thesis using more IH[of j] "1.prems" by simp
    qed
  qed
qed

lemma chunk_windows_ordered:
  "sorted_wrt (\<lambda>a b. snd a \<le> fst b) (chunk_windows t D)"
proof (induction t D rule: chunk_windows.induct)
  case (1 t D)
  show ?case
  proof (cases "t < D")
    case False
    then show ?thesis by (simp add: chunk_windows_done)
  next
    case True
    then show ?thesis
    proof (cases rule: chunk_windows_cases)
      case last
      then show ?thesis by simp
    next
      case more
      have "sorted_wrt (\<lambda>a b. snd a \<le> fst b) (chunk_windows (t + 60) D)"
        using "1.IH"[of "t + 60"] True more by (simp add: CHUNK_DURATION_SECONDS_def min_def)
      moreover have "\<forall>w\<in>set (chunk_windows (t + 60) D). t + 60 \<le> fst w"
        using chunk_windows_bounds by blast
      ultimately show ?thesis using more by simp
    qed
  qed
qed

lemma chunk_windows_union:
  "t \<le> D \<Longrightarrow> (\<Union>w\<in>set (chunk_windows t D). {fst w ..< snd w}) = {t ..< D}"
proof (induction t D rule: chunk_windows.induct)
  case (1 t D)
  show ?case
  proof (cases "t < D")
    case False
    then show ?thesis using "1.prems" by (simp add: chunk_windows_done)
  next
    case True
    then show ?thesis
    proof (cases rule: chunk_windows_cases)
      case last
      then show ?thesis by simp
    next
      case more
      have "(\<Union>w\<in>set (chunk_windows (t + 60) D). {fst w ..< snd w}) = {t + 60 ..< D}"
        using "1.IH"[of "t + 60"] True more by (simp add: CHUNK_DURATION_SECONDS_def min_def)
      then have "(\<Union>w\<in>set (chunk_windows t D). {fst w ..< snd w}) = {t ..< t + 60} \<union> {t + 60 ..< D}"
        using more by simp
      also have "\<dots> = {t ..< D}" using more by (intro ivl_disj_un_two) simp_all
      finally show ?thesis .
    qed
  qed
qed

lemma chunk_windows_starts_increasing:
  "sorted_wrt (<) (map fst (chunk_windows t D))"
proof -
  have "sorted_wrt (\<lambda>a b. fst a < fst b) (chunk_windows t D)"
  proof (rule sorted_wrt_mono_rel[OF _ chunk_windows_ordered])
    fix a b assume "a \<in> set (chunk_windows t D)" "b \<in> set (chunk_windows t D)" "snd a \<le> fst b"
    then show "fst a < fst b" using chunk_windows_bounds[of a t D] by simp
  qed
  then show ?thesis by (simp add: sorted_wrt_map)
qed

lemma chunk_windows_150: "chunk_windows 0 150 = [(0, 60), (60, 120), (120, 150)]"
  by (simp add: chunk_windows_step chunk_windows_done)

subsection \<open>The loop over its windows\<close>

lemma chunk_blob_eq: "chunk_blob pcmData s e = Inr (window_blob pcmData (s, e))"
  by (simp add: chunk_blob_def window_blob_def encodeWAV_eq Let_def)

lemma chunk_loop_done:
  "\<not> t < D \<Longrightarrow> chunk_loop env pcm D t acc tr = (Inr acc, tr)"
  by (subst chunk_loop.simps) simp

lemma chunk_loop_step:
  "t < D \<Longrightarrow> chunk_loop env pcm D t acc tr =
     (case processSingleChunk env tr (window_blob pcm (t, min (t + 60) D)) of
        (Inr segments, tr') \<Rightarrow>
           chunk_loop env pcm D (min (t + 60) D) (acc @ map (adjust env t) segments) tr'
      | (Inl err, tr') \<Rightarrow> (Inl (chunk_failure t), tr'))"
  by (subst chunk_loop.simps) (simp add: chunk_blob_eq CHUNK_DURATION_SECONDS_def Let_def)

text \<open>The loop over the list of its windows.\<close>

lemma chunk_loop_success:
  "transcripts env tr (map (window_blob pcm) (chunk_windows t D)) = map Inr segss \<Longrightarrow>
   chunk_loop env pcm D t acc tr =
     (Inr (acc @ concat (map2 (\<lambda>w segs. map (adjust env (fst w)) segs) (chunk_windows t D) segss)),
      trace_after env tr (map (window_blob pcm) (chunk_windows t D)))"
proof (induction t D arbitrary: acc tr segss rule: chunk_windows.induct)
  case (1 t D)
  show ?case
  proof (cases "t < D")
    case False
    then show ?thesis by (simp add: chunk_loop_done chunk_windows_done)
  next
    case True
    let ?e = "min (t + 60) D"
    let ?b = "window_blob pcm (t, ?e)"
    have ws: "chunk_windows t D = (t, ?e) # chunk_windows ?e D"
      using True by (rule chunk_windows_step)
    obtain segs rest where segss: "segss = segs # rest"
      and r: "fst (processSingleChunk env tr ?b) = Inr segs"
      and rest: "transcripts env (snd (processSingleChunk env tr ?b))
                   (map (window_blob pcm) (chunk_windows ?e D)) = map Inr rest"
      using "1.prems" ws by (cases segss) auto
    have IH: "chunk_loop env pcm D ?e acc' (snd (processSingleChunk env tr ?b)) =
       (Inr (acc' @ concat (map2 (\<lambda>w segs. map (adjust env (fst w)) segs) (chunk_windows ?e D) rest)),
        trace_after env (snd (processSingleChunk env tr ?b)) (map (window_blob pcm) (chunk_windows ?e D)))"
      for acc'
      using "1.IH"[OF True _ rest] by (simp add: CHUNK_DURATION_SECONDS_def)
    have "chunk_loop env pcm D t acc tr
        = chunk_loop env pcm D ?e (acc @ map (adjust env t) segs) (snd (processSingleChunk env tr ?b))"
      using r by (subst chunk_loop_step[OF True]) (simp add: prod.case_eq_if)
    then show ?thesis
      by (simp add: IH segss ws)
  qed
qed

lemma chunk_loop_failure:
  "k < length (chunk_windows t D) \<Longrightarrow>
   take k (transcripts env tr (map (window_blob pcm) (chunk_windows t D))) = map Inr segss \<Longrightarrow>
   transcripts env tr (map (window_blob pcm) (chunk_windows t D)) ! k = Inl e \<Longrightarrow>
   chunk_loop env pcm D t acc tr =
     (Inl (chunk_failure (fst (chunk_windows t D ! k))),
      trace_after env tr (take (Suc k) (map (window_blob pcm) (chunk_windows t D))))"
proof (induction t D arbitrary: acc tr segss k rule: chunk_windows.induct)
  case (1 t D)
  have True: "t < D" using "1.prems"(1) chunk_windows_done[of t D] by (cases "t < D") auto
  let ?e = "min (t + 60) D"
  let ?b = "window_blob pcm (t, ?e)"
  have ws: "chunk_windows t D = (t, ?e) # chunk_windows ?e D"
    using True by (rule chunk_windows_step)
  show ?case
  proof (cases k)
    case 0
    then have "fst (processSingleChunk env tr ?b) = Inl e"
      using "1.prems"(3) ws by simp
    then have "chunk_loop env pcm D t acc tr = (Inl (chunk_failure t), snd (processSingleChunk env tr ?b))"
      by (subst chunk_loop_step[OF True]) (simp add: prod.case_eq_if)
    then show ?thesis using 0 by (simp add: ws)
  next
    case (Suc j)
    obtain segs rest where segss: "segss = segs # rest"
      and r: "fst (processSingleChunk env tr ?b) = Inr segs"
      and rest: "take j (transcripts env (snd (processSingleChunk env tr ?b))
                   (map (window_blob pcm) (chunk_windows ?e D))) = map Inr rest"
      using "1.prems"(2) ws Suc by (cases segss) auto
    have j: "j < length (chunk_windows ?e D)" using "1.prems"(1) ws Suc by simp
    have e: "transcripts env (snd (processSingleChunk env tr ?b))
                   (map (window_blob pcm) (chunk_windows ?e D)) ! j = Inl e"
      using "1.prems"(3) ws Suc by simp
    have IH: "chunk_loop env pcm D ?e acc' (snd (processSingleChunk env tr ?b)) =
       (Inl (chunk_failure (fst (chunk_windows ?e D ! j))),
        trace_after env (snd (processSingleChunk env tr ?b))
          (take (Suc j) (map (window_blob pcm) (chunk_windows ?e D))))"
      for acc'
      using "1.IH"[OF True _ j rest e] by (simp add: CHUNK_DURATION_SECONDS_def)
    have "chunk_loop env pcm D t acc tr
        = chunk_loop env pcm D ?e (acc @ map (adjust env t) segs) (snd (processSingleChunk env tr ?b))"
      using r by (subst chunk_loop_step[OF True]) (simp add: prod.case_eq_if)
    then show ?thesis using Suc
      by (simp add: IH ws)
  qed
qed

subsection \<open>Decimal text\<close>

lemma of_char_digit_char: "d < 10 \<Longrightarrow> of_char (digit_char d) = 48 + d"
  by (simp add: digit_char_def)

lemma digit_char_inj: "d < 10 \<Longrightarrow> d' < 10 \<Longrightarrow> digit_char d = digit_char d' \<Longrightarrow> d = d'"
  by (metis add_left_cancel of_char_digit_char)

lemma digit_char_not_dash: "d < 10 \<Longrightarrow> digit_char d \<noteq> CHR ''-''"
proof
  assume "d < 10" "digit_char d = CHR ''-''"
  then have "(of_char (digit_char d) :: nat) = of_char (CHR ''-'')" by simp
  then show False using \<open>d < 10\<close> by (simp add: of_char_digit_char)
qed

lemma digits_nonempty: "digits n \<noteq> []"
  by (subst digits.simps) simp

lemma last_digits: "last (digits n) = digit_char (n mod 10)"
  by (subst digits.simps) simp

lemma butlast_digits: "butlast (digits n) = (if n < 10 then [] else digits (n div 10))"
  by (subst digits.simps) simp

lemma digits_inj: "digits n = digits m \<Longrightarrow> n = m"
proof (induction n arbitrary: m rule: digits.induct)
  case (1 n)
  have l: "n mod 10 = m mod 10"
    using "1.prems" last_digits[of n] last_digits[of m] digit_char_inj[of "n mod 10" "m mod 10"]
    by simp
  have b: "butlast (digits n) = butlast (digits m)" using "1.prems" by simp
  show ?case
  proof (cases "n < 10")
    case True
    then have "m < 10" using b digits_nonempty[of "m div 10"] by (simp add: butlast_digits split: if_splits)
    then show ?thesis using True l by simp
  next
    case False
    then have m: "\<not> m < 10" using b digits_nonempty[of "n div 10"] by (simp add: butlast_digits split: if_splits)
    then have "digits (n div 10) = digits (m div 10)" using b False by (simp add: butlast_digits)
    then have "n div 10 = m div 10" using "1.IH"[OF False] by simp
    then show ?thesis using l by (metis div_mult_mod_eq)
  qed
qed

lemma dash_notin_digits: "CHR ''-'' \<notin> set (digits n)"
proof (induction n rule: digits.induct)
  case (1 n)
  show ?case
  proof (cases "n < 10")
    case True
    then show ?thesis using digit_char_not_dash[of n] by (subst digits.simps) auto
  next
    case False
    then show ?thesis using "1.IH" digit_char_not_dash[of "n mod 10"]
      by (subst digits.simps) auto
  qed
qed

lemma Int_toString_nat: "Int_toString (int n) = digits n"
  by (simp add: Int_toString_def)

text \<open>Text up to its first dash, and after its last one.\<close>

lemma split_first_dash:
  assumes "CHR ''-'' \<notin> set a" "CHR ''-'' \<notin> set b" "a @ CHR ''-'' # r = b @ CHR ''-'' # r'"
  shows "a = b \<and> r = r'"
proof -
  have "takeWhile (\<lambda>c. c \<noteq> CHR ''-'') (a @ CHR ''-'' # r) = a"
    using assms(1) by (induction a) auto
  moreover have "takeWhile (\<lambda>c. c \<noteq> CHR ''-'') (b @ CHR ''-'' # r') = b"
    using assms(2) by (induction b) auto
  ultimately have "a = b" using assms(3) by simp
  then show ?thesis using assms(3) by simp
qed

lemma split_last_dash:
  assumes "CHR ''-'' \<notin> set a" "CHR ''-'' \<notin> set b" "r @ CHR ''-'' # a = r' @ CHR ''-'' # b"
  shows "a = b \<and> r = r'"
proof -
  have "rev (r @ CHR ''-'' # a) = rev (r' @ CHR ''-'' # b)" using assms(3) by simp
  then have "rev a @ CHR ''-'' # rev r = rev b @ CHR ''-'' # rev r'" by simp
  then have "rev a = rev b \<and> rev r = rev r'"
    using assms(1,2) by (intro split_first_dash) simp_all
  then show ?thesis by simp
qed

subsection \<open>Segment ids\<close>

lemma raw_id_inj: "raw_id env tr i = raw_id env tr' j \<Longrightarrow> i = j"
proof -
  assume "raw_id env tr i = raw_id env tr' j"
  then have "(''seg-'' @ Int_toString (Date_now env tr i)) @ CHR ''-'' # digits i
      = (''seg-'' @ Int_toString (Date_now env tr' j)) @ CHR ''-'' # digits j"
    by (simp add: raw_id_def Int_toString_nat)
  then have "digits i = digits j"
    using split_last_dash[OF dash_notin_digits dash_notin_digits] by blast
  then show ?thesis by (rule digits_inj)
qed

lemma to_segment_id: "to_segment env tr item i = Inr s \<Longrightarrow> seg_id s = raw_id env tr i"
  by (auto simp: to_segment_def raw_id_def split: json.splits)

lemma map_items_ids:
  "map_items env tr items i = Inr segs \<Longrightarrow>
   map seg_id segs = map (raw_id env tr) [i ..< i + length items]"
proof (induction items arbitrary: i segs)
  case Nil
  then show ?case by simp
next
  case (Cons item items)
  then obtain s ss where s: "to_segment env tr item i = Inr s"
    and ss: "map_items env tr items (Suc i) = Inr ss" and segs: "segs = s # ss"
    by (auto simp: bind_result_def split: sum.splits)
  have "map seg_id ss = map (raw_id env tr) [Suc i ..< Suc i + length items]"
    using Cons.IH[OF ss] .
  moreover have "[i ..< i + length (item # items)] = i # [Suc i ..< Suc i + length items]"
    by (simp add: upt_rec)
  ultimately show ?case using to_segment_id[OF s] segs by (simp del: upt_Suc)
qed

lemma map_items_distinct:
  "map_items env tr items i = Inr segs \<Longrightarrow> distinct (map seg_id segs)"
proof -
  assume "map_items env tr items i = Inr segs"
  then have "map seg_id segs = map (raw_id env tr) [i ..< i + length items]"
    by (rule map_items_ids)
  moreover have "distinct (map (raw_id env tr) [i ..< i + length items])"
    by (simp add: distinct_map inj_on_def) (metis raw_id_inj)
  ultimately show ?thesis by simp
qed

lemma parse_response_distinct:
  "parse_response env tr jsonText = Inr segs \<Longrightarrow> distinct (map seg_id segs)"
  by (auto simp: parse_response_def map_items_distinct
      split: option.splits if_splits json.splits)

lemma processSingleChunk_distinct:
  "fst (processSingleChunk env tr b) = Inr segs \<Longrightarrow> distinct (map seg_id segs)"
  by (auto simp: processSingleChunk_def Let_def parse_response_distinct split: sum.splits)

subsection \<open>Traces\<close>

lemma calls_append: "calls (tr @ tr') = calls tr @ calls tr'"
  by (induction tr rule: calls.induct) simp_all

lemma processSingleChunk_trace:
  "snd (processSingleChunk env tr b) = tr @ FileRead b # map Generate (call_for env b)"
  by (simp add: processSingleChunk_def call_for_def Let_def split: sum.splits)

lemma calls_map_Generate: "calls (map Generate rs) = rs"
  by (induction rs) simp_all

lemma trace_after_eq:
  "trace_after env tr bs = tr @ concat (map (\<lambda>b. FileRead b # map Generate (call_for env b)) bs)"
  by (induction bs arbitrary: tr) (simp_all add: processSingleChunk_trace)

lemma calls_trace_after:
  "calls (trace_after env tr bs) = calls tr @ concat (map (call_for env) bs)"
  by (induction bs arbitrary: tr) (simp_all add: processSingleChunk_trace calls_append calls_map_Generate)

lemma processSingleChunk_ok_call:
  "fst (processSingleChunk env tr b) = Inr segs \<Longrightarrow>
   \<exists>base64Data. blobToBase64 env b = Inr base64Data \<and> call_for env b = [request_of b base64Data]"
  by (auto simp: processSingleChunk_def call_for_def Let_def split: sum.splits)

subsection \<open>Window starts\<close>

lemma chunk_windows_nth_start:
  "k < length (chunk_windows t D) \<Longrightarrow> fst (chunk_windows t D ! k) = t + 60 * of_nat k"
proof (induction k arbitrary: t)
  case 0
  then have "t < D" using chunk_windows_done[of t D] by (cases "t < D") auto
  then show ?case by (simp add: chunk_windows_step)
next
  case (Suc k)
  then have lt: "t < D" using chunk_windows_done[of t D] by (cases "t < D") auto
  from lt show ?case
  proof (cases rule: chunk_windows_cases)
    case last
    then show ?thesis using Suc.prems by simp
  next
    case more
    then have "k < length (chunk_windows (t + 60) D)" using Suc.prems by simp
    then have "fst (chunk_windows (t + 60) D ! k) = t + 60 + 60 * of_nat k" by (rule Suc.IH)
    then show ?thesis using more by (simp add: algebra_simps)
  qed
qed

lemma chunk_windows_starts:
  "map fst (chunk_windows 0 D) = map (\<lambda>k. 60 * of_nat k) [0 ..< length (chunk_windows 0 D)]"
  by (rule nth_equalityI) (simp_all add: chunk_windows_nth_start)

lemma chunk_windows_full_length:
  assumes "Suc i < length (chunk_windows t D)"
  shows "snd (chunk_windows t D ! i) - fst (chunk_windows t D ! i) = 60"
proof -
  have "snd (chunk_windows t D ! i) = t + 60 * of_nat (Suc i)"
    using chunk_windows_contiguous[OF assms] chunk_windows_nth_start[OF assms] by simp
  moreover have "fst (chunk_windows t D ! i) = t + 60 * of_nat i"
    using assms by (intro chunk_windows_nth_start) simp
  ultimately show ?thesis by simp
qed

text \<open>
  The cursor of \<open>chunk_loop\<close> adds 60 exactly. A buffer that was rendered has fewer than
  \<open>2^32\<close> frames, so its duration is at most \<open>2^19\<close> seconds, and at every window start of
  such a buffer the double sum \<open>currentTime + 60\<close> and the double product
  \<open>currentTime * 16000\<close> are the exact ones.
\<close>

lemma rendered_duration_bound:
  assumes "decodeAndResample env file = Inr buf"
  shows "duration buf \<le> 2 ^ 19"
proof -
  obtain seconds where d: "duration buf = fl (of_nat (unsigned_long seconds) / 16000)"
    using assms
    by (auto simp: decodeAndResample_def Let_def split: sum.splits if_splits)
  have "unsigned_long seconds < 2 ^ 32"
    by (simp add: unsigned_long_def nat_less_iff)
  then have "(of_nat (unsigned_long seconds) :: rat) < of_nat (2 ^ 32)"
    by (simp only: of_nat_less_iff)
  then have "(of_nat (unsigned_long seconds) :: rat) / 16000 \<le> 2 ^ 19"
    by simp
  then show ?thesis
    unfolding d by (intro fl_le_power) simp_all
qed

lemma cursor_exact:
  assumes "decodeAndResample env file = Inr buf"
    and "w \<in> set (chunk_windows 0 (duration buf))"
  shows "fl (fst w + 60) = fst w + 60 \<and> fl (fst w * 16000) = fst w * 16000"
proof -
  obtain k where k: "k < length (chunk_windows 0 (duration buf))"
    and w: "w = chunk_windows 0 (duration buf) ! k"
    using assms(2) by (auto simp: in_set_conv_nth)
  have s: "fst w = 60 * of_nat k"
    using chunk_windows_nth_start[OF k] w by simp
  have "fst w < duration buf"
    using chunk_windows_bounds[OF assms(2)] by simp
  then have "(60::rat) * of_nat k < 2 ^ 19"
    using rendered_duration_bound[OF assms(1)] s by simp
  then have "(of_nat k :: rat) < of_nat (2 ^ 19)" by simp
  then have "k < 2 ^ 19" by (simp only: of_nat_less_iff)
  then have "60 * k + 60 < 2 ^ 53" "960000 * k < 2 ^ 53" by simp_all
  then show ?thesis
    using cursor_sum_exact[of k] cursor_product_exact[of k] by (simp add: s)
qed

text \<open>
  Every call of \<open>encodeWAV\<close> that the program makes, the one of line 158, passes the rate
  16000 and at most 960000 samples, the samples of one window.
\<close>

lemma length_slice_le:
  "0 \<le> start \<Longrightarrow> 0 \<le> stop \<Longrightarrow> length (slice xs start stop) \<le> nat (stop - start)"
  by (auto simp: slice_def Let_def min_def max_def)

lemma window_samples_bound:
  assumes "decodeAndResample env file = Inr buf"
    and "w \<in> set (chunk_windows 0 (duration buf))"
  shows "length (slice (channelData buf) \<lfloor>fl (fst w * 16000)\<rfloor> \<lfloor>fl (snd w * 16000)\<rfloor>) \<le> 960000"
proof -
  have s: "fl (fst w * 16000) = fst w * 16000"
    using cursor_exact[OF assms] by simp
  have bw: "0 \<le> fst w" "fst w < snd w" "snd w \<le> duration buf" "snd w \<le> fst w + 60"
    using chunk_windows_bounds[OF assms(2)] by simp_all
  obtain k where k: "k < length (chunk_windows 0 (duration buf))"
    and w: "w = chunk_windows 0 (duration buf) ! k"
    using assms(2) by (auto simp: in_set_conv_nth)
  have f: "fst w = 60 * of_nat k"
    using chunk_windows_nth_start[OF k] w by simp
  have d: "snd w \<le> 2 ^ 19" using bw(3) rendered_duration_bound[OF assms(1)] by simp
  have "\<bar>snd w * 16000\<bar> < 2 ^ 53" using d bw by (simp add: abs_if)
  moreover have "snd w * 16000 \<le> of_int (960000 * int k + 960000)"
    using bw(4) f by simp
  ultimately have "fl (snd w * 16000) \<le> of_int (960000 * int k + 960000)"
    by (rule fl_le_int)
  then have e: "\<lfloor>fl (snd w * 16000)\<rfloor> \<le> 960000 * int k + 960000"
    by (simp add: floor_le_iff)
  have st: "\<lfloor>fl (fst w * 16000)\<rfloor> = 960000 * int k"
  proof -
    have "fst w * 16000 = of_int (960000 * int k)" using f by simp
    then show ?thesis unfolding s by (simp only: floor_of_int)
  qed
  have "length (slice (channelData buf) \<lfloor>fl (fst w * 16000)\<rfloor> \<lfloor>fl (snd w * 16000)\<rfloor>)
      \<le> nat (\<lfloor>fl (snd w * 16000)\<rfloor> - \<lfloor>fl (fst w * 16000)\<rfloor>)"
  proof (rule length_slice_le)
    show "0 \<le> \<lfloor>fl (fst w * 16000)\<rfloor>" by (simp add: st)
    have "0 \<le> fl (snd w * 16000)" using bw by (intro fl_nonneg) simp
    then show "0 \<le> \<lfloor>fl (snd w * 16000)\<rfloor>" by simp
  qed
  also have "\<dots> \<le> 960000" using e st by simp
  finally show ?thesis .
qed

lemma encodeWAV_call_in_range:
  assumes "decodeAndResample env file = Inr buf"
    and "w \<in> set (chunk_windows 0 (duration buf))"
  shows "\<exists>samples. chunk_blob (channelData buf) (fst w) (snd w) = encodeWAV samples 16000
           \<and> length samples \<le> 960000 \<and> 36 + 2 * int (length samples) < 2 ^ 32"
proof -
  let ?samples = "slice (channelData buf) \<lfloor>fl (fst w * 16000)\<rfloor> \<lfloor>fl (snd w * 16000)\<rfloor>"
  have "chunk_blob (channelData buf) (fst w) (snd w) = encodeWAV ?samples 16000"
    by (simp add: chunk_blob_def Let_def)
  moreover have "length ?samples \<le> 960000"
    using assms by (rule window_samples_bound)
  ultimately show ?thesis by force
qed

text \<open>
  Claim C1. Let \<open>D > 0\<close> be the total duration and \<open>ws\<close> the list \<open>chunk_windows 0 D\<close> of
  intervals \<open>[start, end)\<close>. The intervals \<open>ws\<close> are not empty, start at 0 and end at \<open>D\<close>
  exactly; each one ends where the next one starts and, the last one apart, is 60 seconds
  long; every one is a non-empty interval of at most 60 seconds; they are ordered and do
  not overlap, their start times increase strictly; their union is \<open>[0, D)\<close>; and for
  \<open>D \<le> 60\<close> there is exactly one, \<open>[0, D)\<close>. These are the windows that the loop of lines 152
  to 182 cuts, whatever the platform and the samples: when the call of every window
  succeeds, the loop has read and sent the blobs of the samples of all of \<open>ws\<close>, in this
  order, and returns the segments of each window moved by the window's start; when the
  call of the \<open>k\<close>-th window is the first to fail, the loop has read the blobs of the
  windows up to the \<open>k\<close>-th and throws the error that names the start of the \<open>k\<close>-th.
\<close>

theorem slicing_loop_windows:
  assumes "0 < D"
  shows "chunk_windows 0 D \<noteq> []
    \<and> fst (hd (chunk_windows 0 D)) = 0
    \<and> snd (last (chunk_windows 0 D)) = D
    \<and> (\<forall>i. Suc i < length (chunk_windows 0 D) \<longrightarrow>
          snd (chunk_windows 0 D ! i) = fst (chunk_windows 0 D ! Suc i)
          \<and> snd (chunk_windows 0 D ! i) - fst (chunk_windows 0 D ! i) = 60)
    \<and> (\<forall>w\<in>set (chunk_windows 0 D). fst w < snd w \<and> snd w - fst w \<le> 60)
    \<and> sorted_wrt (\<lambda>a b. snd a \<le> fst b) (chunk_windows 0 D)
    \<and> sorted_wrt (<) (map fst (chunk_windows 0 D))
    \<and> (\<Union>w\<in>set (chunk_windows 0 D). {fst w ..< snd w}) = {0 ..< D}
    \<and> (D \<le> 60 \<longrightarrow> chunk_windows 0 D = [(0, D)])
    \<and> (\<forall>env pcmData tr segss.
          transcripts env tr (map (window_blob pcmData) (chunk_windows 0 D)) = map Inr segss \<longrightarrow>
          chunk_loop env pcmData D 0 [] tr =
            (Inr (concat (map2 (\<lambda>w segs. map (adjust env (fst w)) segs)
                            (chunk_windows 0 D) segss)),
             trace_after env tr (map (window_blob pcmData) (chunk_windows 0 D))))
    \<and> (\<forall>env pcmData tr k segss e.
          k < length (chunk_windows 0 D)
          \<and> take k (transcripts env tr (map (window_blob pcmData) (chunk_windows 0 D)))
                = map Inr segss
          \<and> transcripts env tr (map (window_blob pcmData) (chunk_windows 0 D)) ! k = Inl e \<longrightarrow>
          chunk_loop env pcmData D 0 [] tr =
            (Inl (chunk_failure (fst (chunk_windows 0 D ! k))),
             trace_after env tr (take (Suc k) (map (window_blob pcmData) (chunk_windows 0 D)))))"
proof (intro conjI)
  show "chunk_windows 0 D \<noteq> []" using assms by (rule chunk_windows_nonempty)
  show "fst (hd (chunk_windows 0 D)) = 0" using assms by (rule chunk_windows_hd)
  show "snd (last (chunk_windows 0 D)) = D" using assms by (rule chunk_windows_last)
  show "\<forall>i. Suc i < length (chunk_windows 0 D) \<longrightarrow>
          snd (chunk_windows 0 D ! i) = fst (chunk_windows 0 D ! Suc i)
          \<and> snd (chunk_windows 0 D ! i) - fst (chunk_windows 0 D ! i) = 60"
    using chunk_windows_contiguous[of _ 0 D] chunk_windows_full_length[of _ 0 D] by blast
  show "\<forall>w\<in>set (chunk_windows 0 D). fst w < snd w \<and> snd w - fst w \<le> 60"
    using chunk_windows_bounds[of _ 0 D] by fastforce
  show "sorted_wrt (\<lambda>a b. snd a \<le> fst b) (chunk_windows 0 D)"
    by (rule chunk_windows_ordered)
  show "sorted_wrt (<) (map fst (chunk_windows 0 D))"
    by (rule chunk_windows_starts_increasing)
  show "(\<Union>w\<in>set (chunk_windows 0 D). {fst w ..< snd w}) = {0 ..< D}"
    using assms by (intro chunk_windows_union) simp
  show "D \<le> 60 \<longrightarrow> chunk_windows 0 D = [(0, D)]"
    using assms chunk_windows_last_short[of 0 D] by simp
  show "\<forall>env pcmData tr segss.
          transcripts env tr (map (window_blob pcmData) (chunk_windows 0 D)) = map Inr segss \<longrightarrow>
          chunk_loop env pcmData D 0 [] tr =
            (Inr (concat (map2 (\<lambda>w segs. map (adjust env (fst w)) segs)
                            (chunk_windows 0 D) segss)),
             trace_after env tr (map (window_blob pcmData) (chunk_windows 0 D)))"
    using chunk_loop_success[of _ _ _ 0 D _ "[]"] by simp
  show "\<forall>env pcmData tr k segss e.
          k < length (chunk_windows 0 D)
          \<and> take k (transcripts env tr (map (window_blob pcmData) (chunk_windows 0 D)))
                = map Inr segss
          \<and> transcripts env tr (map (window_blob pcmData) (chunk_windows 0 D)) ! k = Inl e \<longrightarrow>
          chunk_loop env pcmData D 0 [] tr =
            (Inl (chunk_failure (fst (chunk_windows 0 D ! k))),
             trace_after env tr (take (Suc k) (map (window_blob pcmData) (chunk_windows 0 D))))"
    using chunk_loop_failure[of _ 0 D] by blast
qed

lemma Number_toString_nat: "Number_toString env (of_nat n) = digits n"
  by (simp add: Number_toString_def Int_toString_def)

lemma Number_toString_start: "Number_toString env (60 * of_nat k) = digits (60 * k)"
  using Number_toString_nat[of env "60 * k"] by simp

lemma formatTime_start: "formatTime (60 * of_nat k) = digits k @ '':00''"
proof -
  have "js_rem (60 * of_nat k) 60 = 0"
    by (simp add: js_rem_def js_trunc_def)
  moreover have "digits 0 = ''0''"
    by code_simp
  ultimately show ?thesis
    by (simp add: formatTime_def Int_toString_def padStart_def)
qed

subsection \<open>The adjustment of a window's segments\<close>

lemma adjust_shifted:
  "is_number (startTime s) \<Longrightarrow> is_number (endTime s) \<Longrightarrow> adjust env t s = shifted env t s"
  by (cases s) (auto simp: adjust_def shifted_def js_plus_def is_number_def number_of_def
      split: jsval.splits json.splits)

lemma seg_id_adjust: "seg_id (adjust env t s) = ''seg-'' @ Number_toString env t @ ''-'' @ seg_id s"
  by (simp add: adjust_def)

lemma distinct_prefixed:
  assumes "distinct (map fst ps)" "\<forall>p\<in>set ps. distinct (snd p)" "\<forall>p\<in>set ps. CHR ''-'' \<notin> set (fst p)"
  shows "distinct (concat (map (\<lambda>p. map (\<lambda>x. ''seg-'' @ fst p @ ''-'' @ x) (snd p)) ps))"
  using assms
proof (induction ps)
  case Nil
  then show ?case by simp
next
  case (Cons p ps)
  have 1: "distinct (map (\<lambda>x. ''seg-'' @ fst p @ ''-'' @ x) (snd p))"
    using Cons.prems(2) by (simp add: distinct_map inj_on_def)
  have 2: "distinct (concat (map (\<lambda>p. map (\<lambda>x. ''seg-'' @ fst p @ ''-'' @ x) (snd p)) ps))"
    using Cons.prems by (intro Cons.IH) simp_all
  have 3: "''seg-'' @ fst p @ ''-'' @ x \<noteq> ''seg-'' @ fst q @ ''-'' @ y" if "q \<in> set ps" for q x y
  proof
    assume "''seg-'' @ fst p @ ''-'' @ x = ''seg-'' @ fst q @ ''-'' @ y"
    then have "fst p @ CHR ''-'' # x = fst q @ CHR ''-'' # y" by simp
    moreover have "CHR ''-'' \<notin> set (fst p)" "CHR ''-'' \<notin> set (fst q)"
      using Cons.prems(3) that by simp_all
    ultimately have "fst p = fst q" using split_first_dash by blast
    then show False using Cons.prems(1) that by (metis distinct.simps(2) image_eqI list.simps(9) set_map)
  qed
  show ?case using 1 2 3 by (auto simp del: append.simps)
qed

lemma ids_of_adjusted:
  "length ws = length segss \<Longrightarrow>
   map seg_id (concat (map2 (\<lambda>w segs. map (adjust env (fst w)) segs) ws segss))
   = concat (map (\<lambda>p. map (\<lambda>x. ''seg-'' @ fst p @ ''-'' @ x) (snd p))
        (zip (map (\<lambda>w. Number_toString env (fst w)) ws) (map (map seg_id) segss)))"
proof (induction ws segss rule: list_induct2)
  case Nil
  then show ?case by simp
next
  case (Cons w ws segs segss)
  then show ?case by (simp add: seg_id_adjust comp_def del: append.simps)
qed

lemma distinct_adjusted_ids:
  assumes len: "length segss = length (chunk_windows 0 D)"
    and d: "\<forall>segs\<in>set segss. distinct (map seg_id segs)"
  shows "distinct (map seg_id
           (concat (map2 (\<lambda>w segs. map (adjust env (fst w)) segs) (chunk_windows 0 D) segss)))"
proof -
  let ?ws = "chunk_windows 0 D"
  let ?A = "map (\<lambda>w. Number_toString env (fst w)) ?ws"
  let ?ps = "zip ?A (map (map seg_id) segss)"
  have A: "?A = map (\<lambda>k. digits (60 * k)) [0 ..< length ?ws]"
  proof -
    have "?A = map (Number_toString env) (map fst ?ws)" by simp
    also have "\<dots> = map (Number_toString env) (map (\<lambda>k. 60 * of_nat k) [0 ..< length ?ws])"
      by (subst chunk_windows_starts) (rule refl)
    also have "\<dots> = map (\<lambda>k. digits (60 * k)) [0 ..< length ?ws]"
      by (simp add: Number_toString_start)
    finally show ?thesis .
  qed
  have fst_ps: "map fst ?ps = ?A" using len by simp
  have "distinct ?A"
    unfolding A by (simp add: distinct_map inj_on_def) (metis digits_inj mult_cancel1 zero_neq_numeral)
  then have 1: "distinct (map fst ?ps)" by (simp only: fst_ps)
  have 2: "\<forall>p\<in>set ?ps. distinct (snd p)"
    using d by (auto dest!: set_zip_rightD)
  have "\<forall>a\<in>set ?A. CHR ''-'' \<notin> set a"
    unfolding A using dash_notin_digits by auto
  then have 3: "\<forall>p\<in>set ?ps. CHR ''-'' \<notin> set (fst p)"
    by (auto dest!: set_zip_leftD)
  show ?thesis
    using len distinct_prefixed[OF 1 2 3] by (simp add: ids_of_adjusted)
qed

subsection \<open>The final sort\<close>

lemma insert_by_insort:
  "insert_by (\<lambda>a b. f a - f b) x xs = insort_key f x xs"
  by (induction xs) simp_all

lemma Array_sort_sort_key: "Array_sort (\<lambda>a b. f a - f b) xs = sort_key f xs"
proof -
  have "insert_by (\<lambda>a b. f a - f b) = insort_key f"
    by (intro ext) (rule insert_by_insort)
  then show ?thesis by (simp add: Array_sort_def sort_key_def)
qed

lemma sort_by_startTime_numeric:
  "list_all (\<lambda>s. is_number (startTime s)) xs \<Longrightarrow>
   sort_by_startTime env xs = sort_key (\<lambda>s. number_of (startTime s)) xs"
  by (simp add: sort_by_startTime_def Array_sort_sort_key)

lemma sort_by_startTime_nil: "sort_by_startTime env [] = []"
  by (simp add: sort_by_startTime_def Array_sort_def)


lemma digit_char_simps:
  "digit_char 0 = CHR ''0''" "digit_char 1 = CHR ''1''" "digit_char 2 = CHR ''2''"
  "digit_char 3 = CHR ''3''" "digit_char 4 = CHR ''4''" "digit_char 5 = CHR ''5''"
  "digit_char 6 = CHR ''6''" "digit_char 7 = CHR ''7''" "digit_char 8 = CHR ''8''"
  "digit_char 9 = CHR ''9''" "digit_char (Suc 0) = CHR ''1''"
  by code_simp+


subsection \<open>The reply of the model\<close>

lemma to_segment_non_null:
  "item \<noteq> JNull \<Longrightarrow> to_segment env tr item i = Inr (segment_of_item env tr i item)"
  by (cases item) (simp_all add: to_segment_def segment_of_item_def)

lemma map_items_non_null:
  "JNull \<notin> set items \<Longrightarrow>
   map_items env tr items i = Inr (map2 (segment_of_item env tr) [i ..< i + length items] items)"
proof (induction items arbitrary: i)
  case Nil
  then show ?case by simp
next
  case (Cons item items)
  have u: "[i ..< i + length (item # items)] = i # [Suc i ..< Suc i + length items]"
    by (simp add: upt_rec)
  have ne: "item \<noteq> JNull" using Cons.prems by auto
  have s: "to_segment env tr item i = Inr (segment_of_item env tr i item)"
    using ne by (rule to_segment_non_null)
  have IH: "map_items env tr items (Suc i)
      = Inr (map2 (segment_of_item env tr) [Suc i ..< Suc i + length items] items)"
    using Cons.prems by (intro Cons.IH) simp
  have "map_items env tr (item # items) i
      = Inr (segment_of_item env tr i item
           # map2 (segment_of_item env tr) [Suc i ..< Suc i + length items] items)"
    by (simp only: map_items.simps s IH bind_result_def sum.case)
  also have "\<dots> = Inr (map2 (segment_of_item env tr) (i # [Suc i ..< Suc i + length items])
                        (item # items))"
    by simp
  finally show ?case by (simp only: u)
qed

lemma map_items_not_format_error: "\<not> format_error (map_items env tr items i)"
proof (induction items arbitrary: i)
  case Nil
  then show ?case by (simp add: format_error_def)
next
  case (Cons item items)
  show ?case
  proof (cases "to_segment env tr item i")
    case (Inl e)
    then have "e = TypeError" by (auto simp: to_segment_def split: json.splits)
    then show ?thesis using Inl by (simp add: bind_result_def format_error_def)
  next
    case (Inr s)
    then show ?thesis using Cons.IH[of "Suc i"]
      by (auto simp: bind_result_def format_error_def split: sum.splits)
  qed
qed

text \<open>
  Claim C7 (amended). The response handling of \<open>processSingleChunk\<close> fails with one of its
  three format errors if and only if the reply text is missing or empty, \<open>JSON.parse\<close>
  throws, or the parsed value is not an array. The shape of the elements is not checked:
  for an array without \<open>null\<close> elements it returns one segment per element, with the four
  fields read from the element (\<open>undefined\<close> where the element has no such property) and the
  id \<open>seg-<clock>-<index>\<close>.
\<close>

theorem parse_response_format:
  "(format_error (parse_response env tr jsonText) \<longleftrightarrow>
      jsonText = None \<or> jsonText = Some []
      \<or> (\<exists>t. jsonText = Some t \<and> JSON_parse env t = None)
      \<or> (\<exists>t v. jsonText = Some t \<and> JSON_parse env t = Some v \<and> \<not> is_array v))
   \<and> (\<forall>t items. jsonText = Some t \<and> t \<noteq> [] \<and> JSON_parse env t = Some (JArr items)
          \<and> JNull \<notin> set items \<longrightarrow>
        parse_response env tr jsonText
          = Inr (map2 (segment_of_item env tr) [0 ..< length items] items))"
proof (intro conjI allI impI)
  show "format_error (parse_response env tr jsonText) \<longleftrightarrow>
      jsonText = None \<or> jsonText = Some []
      \<or> (\<exists>t. jsonText = Some t \<and> JSON_parse env t = None)
      \<or> (\<exists>t v. jsonText = Some t \<and> JSON_parse env t = Some v \<and> \<not> is_array v)"
  proof (cases jsonText)
    case None
    then show ?thesis by (simp add: parse_response_def format_error_def)
  next
    case (Some t)
    show ?thesis
    proof (cases "t = []")
      case True
      then show ?thesis using Some by (simp add: parse_response_def format_error_def)
    next
      case False
      show ?thesis
      proof (cases "JSON_parse env t")
        case None
        then show ?thesis using Some False by (simp add: parse_response_def format_error_def)
      next
        case (Some v)
        then show ?thesis using \<open>jsonText = Some t\<close> False map_items_not_format_error[of env tr _ 0]
          by (cases v) (simp_all add: parse_response_def format_error_def is_array_def)
      qed
    qed
  qed
next
  fix t items
  assume "jsonText = Some t \<and> t \<noteq> [] \<and> JSON_parse env t = Some (JArr items) \<and> JNull \<notin> set items"
  then show "parse_response env tr jsonText
      = Inr (map2 (segment_of_item env tr) [0 ..< length items] items)"
    using map_items_non_null[of items env tr 0] by (simp add: parse_response_def)
qed


subsection \<open>The chunked pipeline\<close>

lemma processChunkedAudio_success:
  assumes "decodeAndResample env file = Inr buf"
    and "transcripts env (tr @ [Decoded file]) (window_blobs buf) = map Inr segss"
  shows "processChunkedAudio env tr file =
     (Inr (sort_by_startTime env
        (concat (map2 (\<lambda>w segs. map (adjust env (fst w)) segs)
                  (chunk_windows 0 (duration buf)) segss))),
      trace_after env (tr @ [Decoded file]) (window_blobs buf))"
  using assms chunk_loop_success[of env "tr @ [Decoded file]" "channelData buf" 0 "duration buf" segss "[]"]
  by (simp add: processChunkedAudio_def window_blobs_def)

lemma processChunkedAudio_failure:
  assumes "decodeAndResample env file = Inr buf"
    and "k < length (window_blobs buf)"
    and "take k (transcripts env (tr @ [Decoded file]) (window_blobs buf)) = map Inr segss"
    and "transcripts env (tr @ [Decoded file]) (window_blobs buf) ! k = Inl e"
  shows "processChunkedAudio env tr file =
     (Inl (chunk_failure (60 * of_nat k)),
      trace_after env (tr @ [Decoded file]) (take (Suc k) (window_blobs buf)))"
proof -
  have k: "k < length (chunk_windows 0 (duration buf))"
    using assms(2) by (simp add: window_blobs_def)
  have "chunk_loop env (channelData buf) (duration buf) 0 [] (tr @ [Decoded file]) =
     (Inl (chunk_failure (fst (chunk_windows 0 (duration buf) ! k))),
      trace_after env (tr @ [Decoded file])
        (take (Suc k) (map (window_blob (channelData buf)) (chunk_windows 0 (duration buf)))))"
    using assms(3,4) by (intro chunk_loop_failure[OF k]) (simp_all add: window_blobs_def)
  then show ?thesis
    using assms(1) chunk_windows_nth_start[OF k]
    by (simp add: processChunkedAudio_def window_blobs_def)
qed

lemma transcripts_length: "length (transcripts env tr bs) = length bs"
  by (induction bs arbitrary: tr) simp_all

lemma transcripts_distinct:
  "transcripts env tr bs = map Inr segss \<Longrightarrow> \<forall>segs\<in>set segss. distinct (map seg_id segs)"
proof (induction bs arbitrary: tr segss)
  case Nil
  then show ?case by simp
next
  case (Cons b bs)
  then obtain segs rest where "segss = segs # rest"
    "fst (processSingleChunk env tr b) = Inr segs"
    "transcripts env (snd (processSingleChunk env tr b)) bs = map Inr rest"
    by (cases segss) auto
  then show ?case using Cons.IH processSingleChunk_distinct by auto
qed

lemma transcripts_calls:
  "transcripts env tr bs = map Inr segss \<Longrightarrow> list_all (\<lambda>b. length (call_for env b) = 1) bs"
proof (induction bs arbitrary: tr segss)
  case Nil
  then show ?case by simp
next
  case (Cons b bs)
  then obtain segs rest where "segss = segs # rest"
    "fst (processSingleChunk env tr b) = Inr segs"
    "transcripts env (snd (processSingleChunk env tr b)) bs = map Inr rest"
    by (cases segss) auto
  then show ?case using Cons.IH processSingleChunk_ok_call[of env tr b segs] by auto
qed

lemma adjusted_eq_stitched:
  "list_all (list_all (\<lambda>s. is_number (startTime s) \<and> is_number (endTime s))) segss \<Longrightarrow>
   concat (map2 (\<lambda>w segs. map (adjust env (fst w)) segs) ws segss) = stitched env ws segss"
proof (induction segss arbitrary: ws)
  case Nil
  then show ?case by (simp add: stitched_def)
next
  case (Cons segs segss)
  show ?case
  proof (cases ws)
    case Nil
    then show ?thesis by (simp add: stitched_def)
  next
    case (Cons w ws')
    have "map (adjust env (fst w)) segs = map (shifted env (fst w)) segs"
      using Cons.prems by (intro map_cong refl adjust_shifted) (auto simp: list_all_iff)
    moreover have "concat (map2 (\<lambda>w segs. map (adjust env (fst w)) segs) ws' segss)
        = stitched env ws' segss"
      using Cons.prems by (intro Cons.IH) simp
    ultimately show ?thesis using Cons by (simp add: stitched_def)
  qed
qed

lemma stitched_numeric:
  "list_all (\<lambda>s. is_number (startTime s)) (stitched env ws segss)"
  by (auto simp: stitched_def list_all_iff shifted_def is_number_def dest!: set_zip_rightD)

lemma mset_sort_by_startTime:
  assumes "mset (engine_sort env xs) = mset xs"
  shows "mset (sort_by_startTime env xs) = mset xs"
  using assms by (simp add: sort_by_startTime_def Array_sort_sort_key)

text \<open>
  Claim C2 (amended). Let every window's call succeed, \<open>segss\<close> being the segment lists the
  calls return in window order. Then \<open>processChunkedAudio\<close> returns what the sort of line
  184 makes of the concatenation, in window order, of the segments of all windows, each
  adjusted as in lines 166 to 171: its id is \<open>seg-<window start>-<original id>\<close>, and the
  window's start time is added with \<open>+\<close> to its \<open>startTime\<close> and \<open>endTime\<close>. The ids of the
  adjusted segments are pairwise distinct, and where the sort of the engine rearranges the
  list, so are the ids of the result. When the start and end times in \<open>segss\<close> are numbers
  (the client does not check it), the sums are those of double precision (\<open>stitched\<close>) and
  the result is sorted by \<open>startTime\<close>: it is ascending, a permutation of the concatenation,
  stable (segments with equal start times keep their order), and its ids are pairwise
  distinct.
\<close>

theorem stitch_offsets_sorted_distinct:
  assumes "decodeAndResample env file = Inr buf"
    and "transcripts env (tr @ [Decoded file]) (window_blobs buf) = map Inr segss"
  shows "fst (processChunkedAudio env tr file)
           = Inr (sort_by_startTime env
                    (concat (map2 (\<lambda>w segs. map (adjust env (fst w)) segs)
                               (chunk_windows 0 (duration buf)) segss)))
    \<and> distinct (map seg_id
          (concat (map2 (\<lambda>w segs. map (adjust env (fst w)) segs)
                     (chunk_windows 0 (duration buf)) segss)))
    \<and> (mset (engine_sort env
                (concat (map2 (\<lambda>w segs. map (adjust env (fst w)) segs)
                           (chunk_windows 0 (duration buf)) segss)))
          = mset (concat (map2 (\<lambda>w segs. map (adjust env (fst w)) segs)
                            (chunk_windows 0 (duration buf)) segss)) \<longrightarrow>
        (\<exists>out. fst (processChunkedAudio env tr file) = Inr out
           \<and> mset out = mset (concat (map2 (\<lambda>w segs. map (adjust env (fst w)) segs)
                                        (chunk_windows 0 (duration buf)) segss))
           \<and> distinct (map seg_id out)))
    \<and> (list_all (list_all (\<lambda>s. is_number (startTime s) \<and> is_number (endTime s))) segss \<longrightarrow>
        fst (processChunkedAudio env tr file)
           = Inr (sort_key (\<lambda>s. number_of (startTime s))
                    (stitched env (chunk_windows 0 (duration buf)) segss))
        \<and> sorted (map (\<lambda>s. number_of (startTime s))
             (sort_key (\<lambda>s. number_of (startTime s))
                (stitched env (chunk_windows 0 (duration buf)) segss)))
        \<and> mset (sort_key (\<lambda>s. number_of (startTime s))
                   (stitched env (chunk_windows 0 (duration buf)) segss))
            = mset (stitched env (chunk_windows 0 (duration buf)) segss)
        \<and> (\<forall>t. filter (\<lambda>s. number_of (startTime s) = t)
                  (sort_key (\<lambda>s. number_of (startTime s))
                     (stitched env (chunk_windows 0 (duration buf)) segss))
               = filter (\<lambda>s. number_of (startTime s) = t)
                   (stitched env (chunk_windows 0 (duration buf)) segss))
        \<and> distinct (map seg_id (sort_key (\<lambda>s. number_of (startTime s))
                      (stitched env (chunk_windows 0 (duration buf)) segss))))"
proof -
  let ?ws = "chunk_windows 0 (duration buf)"
  let ?adj = "concat (map2 (\<lambda>w segs. map (adjust env (fst w)) segs) ?ws segss)"
  let ?all = "stitched env ?ws segss"
  let ?key = "\<lambda>s. number_of (startTime s)"
  have 1: "fst (processChunkedAudio env tr file) = Inr (sort_by_startTime env ?adj)"
    using processChunkedAudio_success[OF assms] by simp
  have len: "length segss = length ?ws"
    using assms(2) transcripts_length[of env "tr @ [Decoded file]" "window_blobs buf"]
    by (metis length_map window_blobs_def)
  have 2: "distinct (map seg_id ?adj)"
    using distinct_adjusted_ids[OF len transcripts_distinct[OF assms(2)], of env] .
  have 3: "\<exists>out. fst (processChunkedAudio env tr file) = Inr out
           \<and> mset out = mset ?adj \<and> distinct (map seg_id out)"
    if p: "mset (engine_sort env ?adj) = mset ?adj"
  proof -
    have m: "mset (sort_by_startTime env ?adj) = mset ?adj"
      using p by (rule mset_sort_by_startTime)
    then have "mset (map seg_id (sort_by_startTime env ?adj)) = mset (map seg_id ?adj)"
      by simp
    then have "distinct (map seg_id (sort_by_startTime env ?adj))"
      using 2 mset_eq_imp_distinct_iff by blast
    then show ?thesis using 1 m by blast
  qed
  have 4: "fst (processChunkedAudio env tr file) = Inr (sort_key ?key ?all)
      \<and> sorted (map ?key (sort_key ?key ?all))
      \<and> mset (sort_key ?key ?all) = mset ?all
      \<and> (\<forall>t. filter (\<lambda>s. ?key s = t) (sort_key ?key ?all) = filter (\<lambda>s. ?key s = t) ?all)
      \<and> distinct (map seg_id (sort_key ?key ?all))"
    if n: "list_all (list_all (\<lambda>s. is_number (startTime s) \<and> is_number (endTime s))) segss"
  proof -
    have adj: "?adj = ?all"
      using n by (rule adjusted_eq_stitched)
    have a: "fst (processChunkedAudio env tr file) = Inr (sort_key ?key ?all)"
      using 1 stitched_numeric[of env ?ws segss]
      by (simp add: adj sort_by_startTime_numeric)
    have "distinct (map seg_id ?all)"
      using 2 by (simp only: adj)
    moreover have "mset (map seg_id (sort_key ?key ?all)) = mset (map seg_id ?all)"
      by simp
    ultimately have b: "distinct (map seg_id (sort_key ?key ?all))"
      using mset_eq_imp_distinct_iff by blast
    show ?thesis using a b by (simp add: sort_key_stable)
  qed
  have i3: "mset (engine_sort env ?adj) = mset ?adj \<longrightarrow>
        (\<exists>out. fst (processChunkedAudio env tr file) = Inr out
           \<and> mset out = mset ?adj \<and> distinct (map seg_id out))"
    using 3 by (rule impI)
  have i4: "list_all (list_all (\<lambda>s. is_number (startTime s) \<and> is_number (endTime s))) segss \<longrightarrow>
      fst (processChunkedAudio env tr file) = Inr (sort_key ?key ?all)
      \<and> sorted (map ?key (sort_key ?key ?all))
      \<and> mset (sort_key ?key ?all) = mset ?all
      \<and> (\<forall>t. filter (\<lambda>s. ?key s = t) (sort_key ?key ?all) = filter (\<lambda>s. ?key s = t) ?all)
      \<and> distinct (map seg_id (sort_key ?key ?all))"
    using 4 by (rule impI)
  show ?thesis
    by (intro conjI 1 2 i3 i4)
qed

lemma call_for_length: "length (call_for env b) \<le> 1"
  by (simp add: call_for_def split: sum.splits)

lemma calls_for_length: "length (concat (map (call_for env) bs)) \<le> length bs"
proof (induction bs)
  case Nil
  then show ?case by simp
next
  case (Cons b bs)
  then show ?case using call_for_length[of env b] by simp
qed

lemma chunk_failure_start:
  "chunk_failure (60 * of_nat k)
     = Error (''Failed to process audio segment at '' @ digits k @ '':00. API Error.'')"
  by (simp add: chunk_failure_def formatTime_start)

lemma chunk_failure_inj:
  "chunk_failure (60 * of_nat j) = chunk_failure (60 * of_nat k) \<Longrightarrow> j = k"
  by (simp add: chunk_failure_start digits_inj)

text \<open>
  Claim C5. Let the calls of the windows before the \<open>k\<close>-th succeed and the call of the \<open>k\<close>-th
  window (counted from 0) fail. Then \<open>processChunkedAudio\<close> returns an error and no segments;
  the error is the single message \<open>Failed to process audio segment at k:00. API Error.\<close>,
  where \<open>k:00\<close> is \<open>formatTime\<close> of the start \<open>60 * k\<close> of the failing window and differs from
  window to window; the trace ends with the \<open>k\<close>-th window, so the remote calls made are
  those of the windows up to the \<open>k\<close>-th and none of a later window.
\<close>

theorem window_failure_aborts:
  assumes "decodeAndResample env file = Inr buf"
    and "k < length (window_blobs buf)"
    and "take k (transcripts env (tr @ [Decoded file]) (window_blobs buf)) = map Inr segss"
    and "transcripts env (tr @ [Decoded file]) (window_blobs buf) ! k = Inl e"
  shows "processChunkedAudio env tr file =
           (Inl (Error (''Failed to process audio segment at '' @ formatTime (60 * of_nat k)
                          @ ''. API Error.'')),
            trace_after env (tr @ [Decoded file]) (take (Suc k) (window_blobs buf)))
    \<and> fst (chunk_windows 0 (duration buf) ! k) = 60 * of_nat k
    \<and> formatTime (60 * of_nat k) = digits k @ '':00''
    \<and> (\<forall>j. formatTime (60 * of_nat j) = formatTime (60 * of_nat k) \<longrightarrow> j = k)
    \<and> calls (snd (processChunkedAudio env tr file))
         = calls tr @ concat (map (call_for env) (take (Suc k) (window_blobs buf)))
    \<and> length (calls (snd (processChunkedAudio env tr file))) \<le> length (calls tr) + Suc k"
proof -
  let ?bs = "take (Suc k) (window_blobs buf)"
  have 1: "processChunkedAudio env tr file =
     (Inl (chunk_failure (60 * of_nat k)), trace_after env (tr @ [Decoded file]) ?bs)"
    using assms by (rule processChunkedAudio_failure)
  have k: "k < length (chunk_windows 0 (duration buf))"
    using assms(2) by (simp add: window_blobs_def)
  have 2: "fst (chunk_windows 0 (duration buf) ! k) = 60 * of_nat k"
    using chunk_windows_nth_start[OF k] by simp
  have 3: "calls (snd (processChunkedAudio env tr file)) = calls tr @ concat (map (call_for env) ?bs)"
    by (simp add: 1 calls_trace_after calls_append)
  have "length (concat (map (call_for env) ?bs)) \<le> length ?bs" by (rule calls_for_length)
  also have "\<dots> \<le> Suc k" by simp
  finally have 4: "length (calls (snd (processChunkedAudio env tr file))) \<le> length (calls tr) + Suc k"
    by (simp add: 3)
  have 5: "\<forall>j. formatTime (60 * of_nat j) = formatTime (60 * of_nat k) \<longrightarrow> j = k"
    by (simp add: formatTime_start digits_inj)
  show ?thesis
    using 1 2 3 4 5 by (simp add: chunk_failure_def formatTime_start)
qed

lemma processAudioWithGemini_no_key:
  "API_KEY env = None \<Longrightarrow>
   processAudioWithGemini env tr file
     = (Inl (Error ''API Key is missing from environment variables.''), tr)"
  by (simp add: processAudioWithGemini_def)

lemma decodeAndResample_zero_frames:
  assumes "decodeAudioData env file = Inr seconds" and "unsigned_long (fl (seconds * 16000)) = 0"
  shows "decodeAndResample env file = Inl NotSupportedError"
  using assms by (simp add: decodeAndResample_def)

lemma decodeAndResample_frames:
  assumes "decodeAndResample env file = Inr buf"
  shows "channelData buf \<noteq> [] \<and> 0 < duration buf \<and> chunk_windows 0 (duration buf) \<noteq> []"
proof -
  obtain frames channel where "0 < frames"
    and "buf = \<lparr>duration = fl (of_nat frames / 16000), channelData = map channel [0 ..< frames]\<rparr>"
    using assms
    by (auto simp: decodeAndResample_def Let_def split: sum.splits if_splits)
  then show ?thesis
    using fl_frames_pos[of frames] chunk_windows_nonempty[of 0 "fl (of_nat frames / 16000)"]
    by simp
qed

text \<open>
  Claim C9 (amended). When the decoded audio has no duration, or one so short that
  \<open>duration * 16000\<close> has the integer part 0, the offline context of line 136 cannot be made:
  \<open>processChunkedAudio\<close> throws the \<open>NotSupportedError\<close> of the constructor, the trace gains
  the decoding only, so that no window is read and no remote call made, and no segment
  sequence is returned. The same holds for \<open>processAudioWithGemini\<close> on a file that takes
  the chunked path. The loop itself is never entered with nothing to cut: a buffer that
  was rendered has at least one sample, a duration above 0 and so at least one window.
\<close>

theorem zero_duration_no_call:
  assumes "decodeAudioData env file = Inr seconds"
    and "unsigned_long (fl (seconds * 16000)) = 0"
  shows "processChunkedAudio env tr file = (Inl NotSupportedError, tr @ [Decoded file])
    \<and> calls (snd (processChunkedAudio env tr file)) = calls tr
    \<and> (\<forall>apiKey. API_KEY env = Some apiKey \<and> apiKey \<noteq> [] \<and> 2621440 \<le> size_blob file \<longrightarrow>
         processAudioWithGemini env tr file = (Inl NotSupportedError, tr @ [Decoded file]))
    \<and> (\<forall>buf. decodeAndResample env file \<noteq> Inr buf)
    \<and> (\<forall>env' file' buf. decodeAndResample env' file' = Inr buf \<longrightarrow>
         channelData buf \<noteq> [] \<and> 0 < duration buf \<and> chunk_windows 0 (duration buf) \<noteq> [])"
proof -
  have d: "decodeAndResample env file = Inl NotSupportedError"
    using assms by (rule decodeAndResample_zero_frames)
  then have p: "processChunkedAudio env tr file = (Inl NotSupportedError, tr @ [Decoded file])"
    by (simp add: processChunkedAudio_def)
  show ?thesis
    using d p decodeAndResample_frames
    by (auto simp: calls_append processAudioWithGemini_def CHUNK_THRESHOLD_BYTES_def
        message_includes_def)
qed

text \<open>
  Claim C10. Without \<open>API_KEY\<close>, \<open>processAudioWithGemini\<close> throws
  \<open>API Key is missing from environment variables.\<close> and the trace is unchanged: no file has
  been read, nothing decoded and no remote call made.
\<close>

theorem missing_api_key:
  assumes "API_KEY env = None"
  shows "processAudioWithGemini env tr audioFile
           = (Inl (Error ''API Key is missing from environment variables.''), tr)"
  using assms by (rule processAudioWithGemini_no_key)

subsection \<open>Routing\<close>

lemma str_includes_hd:
  "str_includes s (c # cs) \<Longrightarrow> c \<in> set s"
  by (induction s) (auto simp: prefix_Cons)

lemma digit_char_range: "d < 10 \<Longrightarrow> of_char (digit_char d) \<in> {48 ..< (58::nat)}"
  by (simp add: of_char_digit_char)

lemma digits_chars: "c \<in> set (digits n) \<Longrightarrow> of_char c \<in> {48 ..< (58::nat)}"
proof (induction n rule: digits.induct)
  case (1 n)
  show ?case
  proof (cases "n < 10")
    case True
    then show ?thesis using "1.prems" digit_char_range[of n]
      by (subst (asm) digits.simps) auto
  next
    case False
    then show ?thesis using "1.prems" "1.IH" digit_char_range[of "n mod 10"]
      by (subst (asm) digits.simps) auto
  qed
qed

lemma chunk_failure_not_rewritten:
  "\<not> message_includes (chunk_failure (60 * of_nat k)) ''Rpc failed''
   \<and> \<not> message_includes (chunk_failure (60 * of_nat k)) ''xhr error''"
proof -
  let ?m = "''Failed to process audio segment at '' @ digits k @ '':00. API Error.''"
  have R: "CHR ''R'' \<notin> set ?m"
  proof
    assume "CHR ''R'' \<in> set ?m"
    then have "CHR ''R'' \<in> set (digits k)" by auto
    then show False using digits_chars[of "CHR ''R''" k] by simp
  qed
  have x: "CHR ''x'' \<notin> set ?m"
  proof
    assume "CHR ''x'' \<in> set ?m"
    then have "CHR ''x'' \<in> set (digits k)" by auto
    then show False using digits_chars[of "CHR ''x''" k] by simp
  qed
  have "\<not> str_includes ?m ''Rpc failed''" using R str_includes_hd by blast
  moreover have "\<not> str_includes ?m ''xhr error''" using x str_includes_hd by blast
  ultimately show ?thesis by (simp add: message_includes_def chunk_failure_start)
qed

lemma processAudioWithGemini_small:
  assumes "API_KEY env = Some apiKey" "apiKey \<noteq> []" "size_blob file < 2621440"
  shows "snd (processAudioWithGemini env tr file) = snd (processSingleChunk env tr file)"
    and "fst (processSingleChunk env tr file) = Inr segs \<Longrightarrow>
         fst (processAudioWithGemini env tr file) = Inr segs"
  using assms
  by (auto simp: processAudioWithGemini_def CHUNK_THRESHOLD_BYTES_def split: prod.splits sum.splits)

lemma processAudioWithGemini_large:
  assumes "API_KEY env = Some apiKey" "apiKey \<noteq> []" "2621440 \<le> size_blob file"
  shows "snd (processAudioWithGemini env tr file) = snd (processChunkedAudio env tr file)"
    and "fst (processChunkedAudio env tr file) = Inr segs \<Longrightarrow>
         fst (processAudioWithGemini env tr file) = Inr segs"
  using assms
  by (auto simp: processAudioWithGemini_def CHUNK_THRESHOLD_BYTES_def split: prod.splits sum.splits)

lemma processChunkedAudio_trace_head:
  "\<exists>rest. snd (processChunkedAudio env tr file) = tr @ Decoded file # rest"
proof (cases "decodeAndResample env file")
  case (Inl e)
  then show ?thesis by (simp add: processChunkedAudio_def)
next
  case (Inr buf)
  have "\<exists>rest. snd (chunk_loop env pcm D t acc tr') = tr' @ rest" for pcm D t acc tr'
  proof (induction env pcm D t acc tr' rule: chunk_loop.induct)
    case (1 env pcm D t acc tr')
    show ?case
    proof (cases "t < D")
      case False
      then show ?thesis by (simp add: chunk_loop_done)
    next
      case True
      let ?b = "window_blob pcm (t, min (t + 60) D)"
      obtain r tr'' where p: "processSingleChunk env tr' ?b = (r, tr'')" by (cases "processSingleChunk env tr' ?b")
      have tr'': "tr'' = tr' @ FileRead ?b # map Generate (call_for env ?b)"
        using processSingleChunk_trace[of env tr' ?b] p by simp
      show ?thesis
      proof (cases r)
        case (Inl e)
        then show ?thesis using p tr'' by (simp add: chunk_loop_step[OF True])
      next
        case (Inr segs)
        have "\<exists>rest. snd (chunk_loop env pcm D (min (t + 60) D) (acc @ map (adjust env t) segs) tr'')
            = tr'' @ rest"
          using "1.IH"[OF True _ chunk_blob_eq _ Inr, of "min (t + 60) D" tr''] p Inr True
          by (simp add: CHUNK_DURATION_SECONDS_def)
        then show ?thesis using p Inr tr'' by (auto simp: chunk_loop_step[OF True])
      qed
    qed
  qed
  then obtain rest where
    "snd (chunk_loop env (channelData buf) (duration buf) 0 [] (tr @ [Decoded file]))
       = (tr @ [Decoded file]) @ rest"
    by blast
  then show ?thesis using Inr
    by (auto simp: processChunkedAudio_def split: prod.splits sum.splits)
qed

lemma chunk_loop_trace_prefix:
  "\<exists>n\<le>length (chunk_windows t D).
     snd (chunk_loop env pcm D t acc tr)
       = trace_after env tr (take n (map (window_blob pcm) (chunk_windows t D)))"
proof (induction env pcm D t acc tr rule: chunk_loop.induct)
  case (1 env pcm D t acc tr)
  show ?case
  proof (cases "t < D")
    case False
    then show ?thesis by (simp add: chunk_loop_done chunk_windows_done)
  next
    case True
    let ?e = "min (t + 60) D"
    let ?b = "window_blob pcm (t, ?e)"
    have ws: "chunk_windows t D = (t, ?e) # chunk_windows ?e D"
      using True by (rule chunk_windows_step)
    obtain r tr' where p: "processSingleChunk env tr ?b = (r, tr')"
      by (cases "processSingleChunk env tr ?b")
    show ?thesis
    proof (cases r)
      case (Inl e)
      then have "snd (chunk_loop env pcm D t acc tr)
          = trace_after env tr (take 1 (map (window_blob pcm) (chunk_windows t D)))"
        using p by (simp add: chunk_loop_step[OF True] ws)
      then show ?thesis using ws by (intro exI[of _ 1]) simp
    next
      case (Inr segs)
      obtain n where n: "n \<le> length (chunk_windows ?e D)"
        and tr: "snd (chunk_loop env pcm D ?e (acc @ map (adjust env t) segs) tr')
            = trace_after env tr' (take n (map (window_blob pcm) (chunk_windows ?e D)))"
        using "1.IH"[OF True _ chunk_blob_eq _ Inr, of ?e tr'] p Inr True
        by (auto simp: CHUNK_DURATION_SECONDS_def)
      have "snd (chunk_loop env pcm D t acc tr)
          = trace_after env tr (take (Suc n) (map (window_blob pcm) (chunk_windows t D)))"
        using p Inr tr by (simp add: chunk_loop_step[OF True] ws)
      then show ?thesis using n ws by (intro exI[of _ "Suc n"]) simp
    qed
  qed
qed

lemma processChunkedAudio_trace_prefix:
  assumes "decodeAndResample env file = Inr buf"
  shows "\<exists>n\<le>length (window_blobs buf).
     snd (processChunkedAudio env tr file)
       = trace_after env (tr @ [Decoded file]) (take n (window_blobs buf))"
proof -
  obtain n where "n \<le> length (chunk_windows 0 (duration buf))"
    "snd (chunk_loop env (channelData buf) (duration buf) 0 [] (tr @ [Decoded file]))
       = trace_after env (tr @ [Decoded file])
           (take n (map (window_blob (channelData buf)) (chunk_windows 0 (duration buf))))"
    using chunk_loop_trace_prefix by blast
  then show ?thesis using assms
    by (intro exI[of _ n]) (auto simp: processChunkedAudio_def window_blobs_def split: prod.splits sum.splits)
qed

lemma processChunkedAudio_decode_error:
  "decodeAndResample env file = Inl e \<Longrightarrow>
   processChunkedAudio env tr file = (Inl e, tr @ [Decoded file])"
  by (simp add: processChunkedAudio_def)

subsection \<open>The bytes that are sent\<close>

lemma base64_char_not_comma: "n < 64 \<Longrightarrow> base64_char n \<noteq> CHR '',''"
proof -
  let ?alphabet = "''ABCDEFGHIJKLMNOPQRSTUVWXYZabcdefghijklmnopqrstuvwxyz0123456789+/''"
  assume "n < 64"
  then have "n < length ?alphabet" by simp
  then have "?alphabet ! n \<in> set ?alphabet" by (rule nth_mem)
  moreover have "CHR '','' \<notin> set ?alphabet" by simp
  ultimately show ?thesis unfolding base64_char_def by metis
qed

lemma comma_notin_base64: "CHR '','' \<notin> set (base64 bs)"
proof (induction bs rule: base64.induct)
  case 1
  then show ?case by simp
next
  case (2 a)
  have "unat a < 256" using unsigned_less[of a, where 'a = nat] by simp
  then have "unat a div 4 < 64" "unat a mod 4 * 16 < 64" by simp_all
  then show ?case using base64_char_not_comma[of "unat a div 4"]
      base64_char_not_comma[of "unat a mod 4 * 16"] by auto
next
  case (3 a b)
  have "unat a < 256" "unat b < 256"
    using unsigned_less[of a, where 'a = nat] unsigned_less[of b, where 'a = nat] by simp_all
  then have "unat a div 4 < 64" "unat a mod 4 * 16 + unat b div 16 < 64" "unat b mod 16 * 4 < 64"
    by simp_all
  then show ?case using base64_char_not_comma[of "unat a div 4"]
      base64_char_not_comma[of "unat a mod 4 * 16 + unat b div 16"]
      base64_char_not_comma[of "unat b mod 16 * 4"] by auto
next
  case (4 a b c rest)
  have "unat a < 256" "unat b < 256" "unat c < 256"
    using unsigned_less[of a, where 'a = nat] unsigned_less[of b, where 'a = nat]
      unsigned_less[of c, where 'a = nat] by simp_all
  then have "unat a div 4 < 64" "unat a mod 4 * 16 + unat b div 16 < 64"
    "unat b mod 16 * 4 + unat c div 64 < 64" "unat c mod 64 < 64"
    by simp_all
  then show ?case using 4 base64_char_not_comma[of "unat a div 4"]
      base64_char_not_comma[of "unat a mod 4 * 16 + unat b div 16"]
      base64_char_not_comma[of "unat b mod 16 * 4 + unat c div 64"]
      base64_char_not_comma[of "unat c mod 64"] by auto
qed

lemma split_comma_1_data_url:
  assumes "CHR '','' \<notin> set mediaType"
  shows "split_comma_1 (data_url mediaType b) = Some (base64 (content b))"
proof -
  have u: "data_url mediaType b
      = (''data:'' @ mediaType @ '';base64'') @ CHR '','' # base64 (content b)"
    by (simp add: data_url_def)
  have "dropWhile (\<lambda>c. c \<noteq> CHR '','') (data_url mediaType b) = CHR '','' # base64 (content b)"
    unfolding u using assms by (subst dropWhile_append2) auto
  moreover have "takeWhile (\<lambda>c. c \<noteq> CHR '','') (base64 (content b)) = base64 (content b)"
    using comma_notin_base64[of "content b"] by (auto simp: takeWhile_eq_all_conv)
  ultimately show ?thesis by (simp add: split_comma_1_def)
qed

lemma call_for_data_url:
  assumes "readAsDataURL env b = Inr (data_url mediaType b)" and "CHR '','' \<notin> set mediaType"
  shows "call_for env b = [sent b]"
  using assms
  by (simp add: call_for_def blobToBase64_def split_comma_1_data_url request_of_def sent_def)

lemma calls_for_data_url:
  "list_all (\<lambda>b. readAsDataURL env b = Inr (data_url ''audio/wav'' b)) bs \<Longrightarrow>
   concat (map (call_for env) bs) = map sent bs"
proof (induction bs)
  case Nil
  then show ?case by simp
next
  case (Cons b bs)
  have "call_for env b = [sent b]"
    using Cons.prems by (intro call_for_data_url[where mediaType = "''audio/wav''"]) simp_all
  then show ?case using Cons by simp
qed

text \<open>
  Claim C4. With an API key, the path depends on the byte size of the file alone.
  Below \<open>2621440 = 2.5 * 1024 * 1024\<close> bytes the file itself is read and sent: the trace gains
  that read and at most one remote call, never a decoding; when the call succeeds its
  segments are returned as they are and exactly one request was made, built from what the
  read gave; and when the \<open>FileReader\<close> gives the data URL of the file's bytes (with a media
  type, which has no comma), exactly one request is made and it carries the Base64 text of
  these bytes. From \<open>2621440\<close> bytes on, the file is decoded and, whatever happens, the
  remote calls are those of the first \<open>n\<close> windows in window order, never one for the file
  itself; when every window's call succeeds, there is exactly one call per window, in the
  order of the windows, whose start times increase, and the request of a window carries
  the Base64 text of the WAV bytes of that window.
\<close>

theorem routing_by_size:
  assumes "API_KEY env = Some apiKey" and "apiKey \<noteq> []"
  shows
   "(size_blob audioFile < 2621440 \<longrightarrow>
       snd (processAudioWithGemini env tr audioFile)
         = tr @ FileRead audioFile # map Generate (call_for env audioFile)
     \<and> (\<forall>segs. fst (processSingleChunk env tr audioFile) = Inr segs \<longrightarrow>
          fst (processAudioWithGemini env tr audioFile) = Inr segs
        \<and> (\<exists>base64Data. blobToBase64 env audioFile = Inr base64Data
             \<and> calls (snd (processAudioWithGemini env tr audioFile))
                  = calls tr @ [request_of audioFile base64Data]))
     \<and> (\<forall>mediaType. readAsDataURL env audioFile = Inr (data_url mediaType audioFile)
           \<and> CHR '','' \<notin> set mediaType \<longrightarrow>
          snd (processAudioWithGemini env tr audioFile)
            = tr @ [FileRead audioFile, Generate (sent audioFile)]))
    \<and> (2621440 \<le> size_blob audioFile \<longrightarrow>
         (\<forall>e. decodeAndResample env audioFile = Inl e \<longrightarrow>
            snd (processAudioWithGemini env tr audioFile) = tr @ [Decoded audioFile])
       \<and> (\<forall>buf. decodeAndResample env audioFile = Inr buf \<longrightarrow>
            (\<exists>n\<le>length (window_blobs buf).
               snd (processAudioWithGemini env tr audioFile)
                 = trace_after env (tr @ [Decoded audioFile]) (take n (window_blobs buf))
             \<and> calls (snd (processAudioWithGemini env tr audioFile))
                 = calls tr @ concat (map (call_for env) (take n (window_blobs buf)))))
       \<and> (\<forall>buf segss. decodeAndResample env audioFile = Inr buf
             \<and> transcripts env (tr @ [Decoded audioFile]) (window_blobs buf) = map Inr segss \<longrightarrow>
            fst (processAudioWithGemini env tr audioFile)
              = fst (processChunkedAudio env tr audioFile)
          \<and> calls (snd (processAudioWithGemini env tr audioFile))
              = calls tr @ concat (map (call_for env) (window_blobs buf))
          \<and> list_all (\<lambda>b. length (call_for env b) = 1) (window_blobs buf)
          \<and> length (calls (snd (processAudioWithGemini env tr audioFile)))
              = length (calls tr) + length (chunk_windows 0 (duration buf))
          \<and> sorted_wrt (<) (map fst (chunk_windows 0 (duration buf))))
       \<and> (\<forall>buf segss. decodeAndResample env audioFile = Inr buf
             \<and> transcripts env (tr @ [Decoded audioFile]) (window_blobs buf) = map Inr segss
             \<and> list_all (\<lambda>b. readAsDataURL env b = Inr (data_url ''audio/wav'' b))
                  (window_blobs buf) \<longrightarrow>
            calls (snd (processAudioWithGemini env tr audioFile))
              = calls tr @ map sent (window_blobs buf)))"
proof (intro conjI impI allI)
  assume small: "size_blob audioFile < 2621440"
  show "snd (processAudioWithGemini env tr audioFile)
         = tr @ FileRead audioFile # map Generate (call_for env audioFile)"
    using processAudioWithGemini_small(1)[OF assms small] by (simp add: processSingleChunk_trace)
  fix segs assume ok: "fst (processSingleChunk env tr audioFile) = Inr segs"
  show "fst (processAudioWithGemini env tr audioFile) = Inr segs"
    using processAudioWithGemini_small(2)[OF assms small ok] .
  obtain d where d: "blobToBase64 env audioFile = Inr d" "call_for env audioFile = [request_of audioFile d]"
    using processSingleChunk_ok_call[OF ok] by blast
  have "calls (snd (processAudioWithGemini env tr audioFile)) = calls tr @ [request_of audioFile d]"
    using processAudioWithGemini_small(1)[OF assms small, of tr] d
    by (simp add: processSingleChunk_trace calls_append)
  then show "\<exists>base64Data. blobToBase64 env audioFile = Inr base64Data
             \<and> calls (snd (processAudioWithGemini env tr audioFile))
                  = calls tr @ [request_of audioFile base64Data]"
    using d by blast
next
  fix mediaType
  assume small: "size_blob audioFile < 2621440"
    and h: "readAsDataURL env audioFile = Inr (data_url mediaType audioFile)
           \<and> CHR '','' \<notin> set mediaType"
  have "call_for env audioFile = [sent audioFile]"
    using h by (intro call_for_data_url[where mediaType = mediaType]) simp_all
  then show "snd (processAudioWithGemini env tr audioFile)
            = tr @ [FileRead audioFile, Generate (sent audioFile)]"
    using processAudioWithGemini_small(1)[OF assms small, of tr]
    by (simp add: processSingleChunk_trace)
next
  fix e assume large: "2621440 \<le> size_blob audioFile" and "decodeAndResample env audioFile = Inl e"
  then show "snd (processAudioWithGemini env tr audioFile) = tr @ [Decoded audioFile]"
    using processAudioWithGemini_large(1)[OF assms large, of tr]
    by (simp add: processChunkedAudio_decode_error)
next
  fix buf assume large: "2621440 \<le> size_blob audioFile"
    and dec: "decodeAndResample env audioFile = Inr buf"
  obtain n where "n \<le> length (window_blobs buf)"
    "snd (processChunkedAudio env tr audioFile)
       = trace_after env (tr @ [Decoded audioFile]) (take n (window_blobs buf))"
    using processChunkedAudio_trace_prefix[OF dec] by blast
  then show "\<exists>n\<le>length (window_blobs buf).
               snd (processAudioWithGemini env tr audioFile)
                 = trace_after env (tr @ [Decoded audioFile]) (take n (window_blobs buf))
             \<and> calls (snd (processAudioWithGemini env tr audioFile))
                 = calls tr @ concat (map (call_for env) (take n (window_blobs buf)))"
    using processAudioWithGemini_large(1)[OF assms large, of tr]
    by (intro exI[of _ n]) (simp add: calls_trace_after calls_append)
next
  fix buf segss
  assume large: "2621440 \<le> size_blob audioFile"
    and h: "decodeAndResample env audioFile = Inr buf
             \<and> transcripts env (tr @ [Decoded audioFile]) (window_blobs buf) = map Inr segss"
  have s: "processChunkedAudio env tr audioFile =
     (Inr (sort_by_startTime env
        (concat (map2 (\<lambda>w segs. map (adjust env (fst w)) segs)
                  (chunk_windows 0 (duration buf)) segss))),
      trace_after env (tr @ [Decoded audioFile]) (window_blobs buf))"
    using h by (intro processChunkedAudio_success) simp_all
  show "fst (processAudioWithGemini env tr audioFile) = fst (processChunkedAudio env tr audioFile)"
    using processAudioWithGemini_large(2)[OF assms large, of tr] s by simp
  show c: "calls (snd (processAudioWithGemini env tr audioFile))
              = calls tr @ concat (map (call_for env) (window_blobs buf))"
    using processAudioWithGemini_large(1)[OF assms large, of tr] s
    by (simp add: calls_trace_after calls_append)
  show one: "list_all (\<lambda>b. length (call_for env b) = 1) (window_blobs buf)"
    using h transcripts_calls by blast
  have "length (concat (map (call_for env) bs)) = length bs"
    if "list_all (\<lambda>b. length (call_for env b) = 1) bs" for bs
    using that by (induction bs) simp_all
  then have "length (concat (map (call_for env) (window_blobs buf))) = length (window_blobs buf)"
    using one by blast
  moreover have "length (window_blobs buf) = length (chunk_windows 0 (duration buf))"
    by (simp add: window_blobs_def)
  ultimately show "length (calls (snd (processAudioWithGemini env tr audioFile)))
              = length (calls tr) + length (chunk_windows 0 (duration buf))"
    by (simp only: c length_append)
  show "sorted_wrt (<) (map fst (chunk_windows 0 (duration buf)))"
    by (rule chunk_windows_starts_increasing)
next
  fix buf segss
  assume large: "2621440 \<le> size_blob audioFile"
    and h: "decodeAndResample env audioFile = Inr buf
             \<and> transcripts env (tr @ [Decoded audioFile]) (window_blobs buf) = map Inr segss
             \<and> list_all (\<lambda>b. readAsDataURL env b = Inr (data_url ''audio/wav'' b))
                  (window_blobs buf)"
  have s: "processChunkedAudio env tr audioFile =
     (Inr (sort_by_startTime env
        (concat (map2 (\<lambda>w segs. map (adjust env (fst w)) segs)
                  (chunk_windows 0 (duration buf)) segss))),
      trace_after env (tr @ [Decoded audioFile]) (window_blobs buf))"
    using h by (intro processChunkedAudio_success) simp_all
  have "calls (snd (processAudioWithGemini env tr audioFile))
      = calls tr @ concat (map (call_for env) (window_blobs buf))"
    using processAudioWithGemini_large(1)[OF assms large, of tr] s
    by (simp add: calls_trace_after calls_append)
  then show "calls (snd (processAudioWithGemini env tr audioFile))
              = calls tr @ map sent (window_blobs buf)"
    using h by (simp add: calls_for_data_url)
qed

text \<open>
  Claim C8 (amended). On the single-shot path, a remote call that throws an error whose
  message includes \<open>Rpc failed\<close> or \<open>xhr error\<close> surfaces as the network error message that
  names the payload limit and the network, after exactly one remote call. On the chunked
  path a failing window, whatever the failure, surfaces as
  \<open>Failed to process audio segment at k:00. API Error.\<close>, which is not rewritten, after at
  most \<open>k + 1\<close> remote calls. Neither path retries.
\<close>

theorem transport_failure_surfaced:
  assumes "API_KEY env = Some apiKey" and "apiKey \<noteq> []"
  shows
   "(size_blob audioFile < 2621440 \<longrightarrow>
       (\<forall>base64Data m. blobToBase64 env audioFile = Inr base64Data
          \<and> generateContent env (tr @ [FileRead audioFile]) (request_of audioFile base64Data)
               = Inl (Error m)
          \<and> (str_includes m ''Rpc failed'' \<or> str_includes m ''xhr error'') \<longrightarrow>
          processAudioWithGemini env tr audioFile
            = (Inl network_error,
               tr @ [FileRead audioFile, Generate (request_of audioFile base64Data)])))
    \<and> (2621440 \<le> size_blob audioFile \<longrightarrow>
         (\<forall>buf k segss e. decodeAndResample env audioFile = Inr buf
            \<and> k < length (window_blobs buf)
            \<and> take k (transcripts env (tr @ [Decoded audioFile]) (window_blobs buf)) = map Inr segss
            \<and> transcripts env (tr @ [Decoded audioFile]) (window_blobs buf) ! k = Inl e \<longrightarrow>
            processAudioWithGemini env tr audioFile
              = (Inl (Error (''Failed to process audio segment at '' @ digits k
                              @ '':00. API Error.'')),
                 trace_after env (tr @ [Decoded audioFile]) (take (Suc k) (window_blobs buf)))
          \<and> length (calls (snd (processAudioWithGemini env tr audioFile)))
               \<le> length (calls tr) + Suc k))"
proof (intro conjI impI allI)
  fix base64Data m
  assume small: "size_blob audioFile < 2621440"
    and h: "blobToBase64 env audioFile = Inr base64Data
          \<and> generateContent env (tr @ [FileRead audioFile]) (request_of audioFile base64Data)
               = Inl (Error m)
          \<and> (str_includes m ''Rpc failed'' \<or> str_includes m ''xhr error'')"
  then have "processSingleChunk env tr audioFile
      = (Inl (Error m), tr @ [FileRead audioFile, Generate (request_of audioFile base64Data)])"
    by (simp add: processSingleChunk_def Let_def)
  then show "processAudioWithGemini env tr audioFile
            = (Inl network_error,
               tr @ [FileRead audioFile, Generate (request_of audioFile base64Data)])"
    using assms small h
    by (auto simp: processAudioWithGemini_def CHUNK_THRESHOLD_BYTES_def message_includes_def)
next
  fix buf k segss e
  assume large: "2621440 \<le> size_blob audioFile"
    and h: "decodeAndResample env audioFile = Inr buf
            \<and> k < length (window_blobs buf)
            \<and> take k (transcripts env (tr @ [Decoded audioFile]) (window_blobs buf)) = map Inr segss
            \<and> transcripts env (tr @ [Decoded audioFile]) (window_blobs buf) ! k = Inl e"
  let ?bs = "take (Suc k) (window_blobs buf)"
  have f: "processChunkedAudio env tr audioFile =
     (Inl (chunk_failure (60 * of_nat k)), trace_after env (tr @ [Decoded audioFile]) ?bs)"
    using h by (intro processChunkedAudio_failure) simp_all
  then show r: "processAudioWithGemini env tr audioFile
              = (Inl (Error (''Failed to process audio segment at '' @ digits k
                              @ '':00. API Error.'')),
                 trace_after env (tr @ [Decoded audioFile]) ?bs)"
    using assms large chunk_failure_not_rewritten[of k]
    by (simp add: processAudioWithGemini_def CHUNK_THRESHOLD_BYTES_def chunk_failure_start)
  have "length (concat (map (call_for env) ?bs)) \<le> length ?bs" by (rule calls_for_length)
  also have "\<dots> \<le> Suc k" by simp
  finally show "length (calls (snd (processAudioWithGemini env tr audioFile)))
               \<le> length (calls tr) + Suc k"
    by (simp add: r calls_trace_after calls_append)
qed

subsection \<open>The concrete environments, evaluated\<close>

lemma mime_window_blob: "mime (window_blob pcm w) = ''audio/wav''"
  by (simp add: window_blob_def Let_def)

lemma reply_text_nonempty: "reply_text \<noteq> []"
  by (simp add: reply_text_def)

lemma reply_text_not_empty_object: "reply_text \<noteq> ''[{}]''"
  by (simp add: reply_text_def quoted_def)

lemma digits_1000: "digits 1000 = ''1000''" and digits_0: "digits 0 = ''0''"
  and digits_1: "digits 1 = ''1''"
  and digits_60: "digits 60 = ''60''" and digits_120: "digits 120 = ''120''"
  by (simp_all add: digits.simps digit_char_simps)

lemma parse_reply_text:
  "JSON_parse env = JSON_parse env_ok \<Longrightarrow> Date_now env = Date_now env_ok \<Longrightarrow>
   parse_response env tr (Some reply_text) = Inr [reply_segment]"
  by (simp add: parse_response_def reply_text_nonempty env_ok_def reply_json_def
      to_segment_def get_prop_def bind_result_def Int_toString_def digits_1000 digits_0
      reply_segment_def)

lemma parse_empty_object:
  "JSON_parse env = JSON_parse env_ok \<Longrightarrow> Date_now env = Date_now env_ok \<Longrightarrow>
   parse_response env tr (Some ''[{}]'') = Inr [undefined_segment]"
  using reply_text_not_empty_object
  by (simp add: parse_response_def env_ok_def undefined_segment_def
      to_segment_def get_prop_def bind_result_def Int_toString_def digits_1000 digits_0)

lemma readAsDataURL_env_ok: "readAsDataURL env_ok b = Inr (data_url (mime b) b)"
  by (simp add: env_ok_def)

lemma call_for_wav:
  "readAsDataURL env = readAsDataURL env_ok \<Longrightarrow> mime b = ''audio/wav'' \<Longrightarrow>
   call_for env b = [sent b]"
  by (rule call_for_data_url[where mediaType = "''audio/wav''"])
    (simp_all add: readAsDataURL_env_ok)

lemma blobToBase64_wav:
  "readAsDataURL env = readAsDataURL env_ok \<Longrightarrow> mime b = ''audio/wav'' \<Longrightarrow>
   blobToBase64 env b = Inr (Some (base64 (content b)))"
  using split_comma_1_data_url[of "''audio/wav''" b]
  by (simp add: blobToBase64_def readAsDataURL_env_ok)

lemma blobToBase64_mpeg:
  "readAsDataURL env = readAsDataURL env_ok \<Longrightarrow> mime b = ''audio/mpeg'' \<Longrightarrow>
   blobToBase64 env b = Inr (Some (base64 (content b)))"
  using split_comma_1_data_url[of "''audio/mpeg''" b]
  by (simp add: blobToBase64_def readAsDataURL_env_ok)

lemma request_of_sent: "request_of b (Some (base64 (content b))) = sent b"
  by (simp add: request_of_def sent_def)

lemma base64_small_file: "base64 (content small_file) = ''SUQz''"
  by (simp add: small_file_def base64_char_def)

lemma sent_small_file: "sent small_file = mpeg_request"
  by (simp add: sent_def mpeg_request_def base64_small_file) (simp add: small_file_def)

lemma generateContent_env_ok: "generateContent env_ok tr req = Inr (Some reply_text)"
  by (simp add: env_ok_def)

lemma processSingleChunk_env_ok:
  "mime b = ''audio/wav'' \<Longrightarrow>
   processSingleChunk env_ok tr b = (Inr [reply_segment], tr @ [FileRead b, Generate (sent b)])"
  by (simp add: processSingleChunk_def blobToBase64_wav request_of_sent parse_reply_text
      generateContent_env_ok Let_def)

lemma processSingleChunk_env_second_fails:
  "mime b = ''audio/wav'' \<Longrightarrow>
   processSingleChunk env_second_fails tr b =
     (if length (calls tr) = 1 then Inl (Error ''Rpc failed'') else Inr [reply_segment],
      tr @ [FileRead b, Generate (sent b)])"
  by (simp add: processSingleChunk_def blobToBase64_wav request_of_sent parse_reply_text
      env_second_fails_def calls_append Let_def)

lemma processSingleChunk_env_rpc_fails:
  "mime b = ''audio/wav'' \<Longrightarrow>
   processSingleChunk env_rpc_fails tr b =
     (Inl (Error ''Rpc failed''), tr @ [FileRead b, Generate (sent b)])"
  by (simp add: processSingleChunk_def blobToBase64_wav request_of_sent env_rpc_fails_def Let_def)

lemma processSingleChunk_env_empty_object:
  "mime b = ''audio/wav'' \<Longrightarrow>
   processSingleChunk env_empty_object tr b
     = (Inr [undefined_segment], tr @ [FileRead b, Generate (sent b)])"
  by (simp add: processSingleChunk_def blobToBase64_wav request_of_sent parse_empty_object
      env_empty_object_def Let_def)

lemma frames_150: "unsigned_long 2400000 = 2400000"
  by (simp add: unsigned_long_def js_trunc_def)

lemma decode_env_ok: "decodeAndResample env_ok b = Inr audio_150"
  by (simp add: decodeAndResample_def env_ok_def frames_150 Let_def fl_numeral audio_150_def)

lemma decode_like_env_ok:
  assumes "decodeAudioData env = decodeAudioData env_ok"
    and "startRendering env = startRendering env_ok"
  shows "decodeAndResample env b = Inr audio_150"
proof -
  have "decodeAndResample env b = decodeAndResample env_ok b"
    unfolding decodeAndResample_def assms by (rule refl)
  then show ?thesis by (simp only: decode_env_ok)
qed

lemma duration_audio_150: "duration audio_150 = 150"
  by (simp add: audio_150_def)

lemma window_blobs_150:
  "window_blobs audio_150 =
     [window_blob (channelData audio_150) (0, 60), window_blob (channelData audio_150) (60, 120),
      window_blob (channelData audio_150) (120, 150)]"
  by (simp add: window_blobs_def duration_audio_150 chunk_windows_150)

lemma transcripts_env_ok:
  "transcripts env_ok tr (window_blobs audio_150)
     = map Inr [[reply_segment], [reply_segment], [reply_segment]]"
  by (simp add: window_blobs_150 processSingleChunk_env_ok mime_window_blob)

lemma API_KEY_env_ok: "API_KEY env_ok = Some ''key''"
  by (simp add: env_ok_def)

lemma size_small_file: "size_blob small_file < 2621440"
  by (simp add: size_blob_def small_file_def)

lemma size_large_file: "2621440 \<le> size_blob large_file"
  by (simp add: size_blob_def large_file_def)

lemma mime_small_file: "mime small_file = ''audio/mpeg''"
  by (simp add: small_file_def)

lemma processSingleChunk_env_ok_mpeg:
  "mime b = ''audio/mpeg'' \<Longrightarrow>
   processSingleChunk env_ok tr b = (Inr [reply_segment], tr @ [FileRead b, Generate (sent b)])"
  by (simp add: processSingleChunk_def blobToBase64_mpeg request_of_sent parse_reply_text
      generateContent_env_ok Let_def)

lemma numeric_replies:
  "list_all (list_all (\<lambda>s. is_number (startTime s) \<and> is_number (endTime s)))
     [[reply_segment], [reply_segment], [reply_segment]]"
  by (simp add: reply_segment_def is_number_def)

text \<open>150 seconds: windows from 0 to 60, from 60 to 120 and from 120 to 150, whose blobs the
  loop reads and sends in this order.\<close>

theorem slicing_loop_windows_witness:
  "(0::rat) < 150
   \<and> chunk_windows 0 150 = [(0, 60), (60, 120), (120, 150)]
   \<and> snd (last (chunk_windows 0 150)) = 150
   \<and> (\<Union>w\<in>set (chunk_windows 0 150). {fst w ..< snd w}) = {0 ..< 150}
   \<and> transcripts env_ok [] (map (window_blob (channelData audio_150)) (chunk_windows 0 150))
       = map Inr [[reply_segment], [reply_segment], [reply_segment]]
   \<and> snd (chunk_loop env_ok (channelData audio_150) 150 0 [] [])
       = [FileRead (window_blob (channelData audio_150) (0, 60)),
          Generate (sent (window_blob (channelData audio_150) (0, 60))),
          FileRead (window_blob (channelData audio_150) (60, 120)),
          Generate (sent (window_blob (channelData audio_150) (60, 120))),
          FileRead (window_blob (channelData audio_150) (120, 150)),
          Generate (sent (window_blob (channelData audio_150) (120, 150)))]"
proof -
  note W = slicing_loop_windows [of 150]
  have p: "(0::rat) < 150" by simp
  have t: "transcripts env_ok [] (map (window_blob (channelData audio_150)) (chunk_windows 0 150))
       = map Inr [[reply_segment], [reply_segment], [reply_segment]]"
    by (simp add: chunk_windows_150 processSingleChunk_env_ok mime_window_blob)
  have l: "snd (last (chunk_windows 0 150)) = 150"
    using W[OF p] by blast
  have u: "(\<Union>w\<in>set (chunk_windows 0 150). {fst w ..< snd w}) = {0 ..< 150}"
    using W[OF p] by blast
  have A: "\<forall>env pcmData tr segss.
          transcripts env tr (map (window_blob pcmData) (chunk_windows 0 150)) = map Inr segss \<longrightarrow>
          chunk_loop env pcmData 150 0 [] tr =
            (Inr (concat (map2 (\<lambda>w segs. map (adjust env (fst w)) segs)
                            (chunk_windows 0 150) segss)),
             trace_after env tr (map (window_blob pcmData) (chunk_windows 0 150)))"
    using W[OF p] by blast
  have "chunk_loop env_ok (channelData audio_150) 150 0 [] [] =
            (Inr (concat (map2 (\<lambda>w segs. map (adjust env_ok (fst w)) segs)
                            (chunk_windows 0 150)
                            [[reply_segment], [reply_segment], [reply_segment]])),
             trace_after env_ok []
               (map (window_blob (channelData audio_150)) (chunk_windows 0 150)))"
    by (rule A[THEN spec, THEN spec, THEN spec, THEN spec, THEN mp, OF t])
  then have "snd (chunk_loop env_ok (channelData audio_150) 150 0 [] [])
      = trace_after env_ok [] (map (window_blob (channelData audio_150)) (chunk_windows 0 150))"
    by simp
  then have c: "snd (chunk_loop env_ok (channelData audio_150) 150 0 [] [])
       = [FileRead (window_blob (channelData audio_150) (0, 60)),
          Generate (sent (window_blob (channelData audio_150) (0, 60))),
          FileRead (window_blob (channelData audio_150) (60, 120)),
          Generate (sent (window_blob (channelData audio_150) (60, 120))),
          FileRead (window_blob (channelData audio_150) (120, 150)),
          Generate (sent (window_blob (channelData audio_150) (120, 150)))]"
    by (simp add: chunk_windows_150 processSingleChunk_env_ok mime_window_blob)
  show ?thesis
    using p l u t c chunk_windows_150 by (intro conjI)
qed

text \<open>Windows at 0, 60 and 120 seconds, each with one segment from 0 to 5: the segments of
  the result are at 0 to 5, 60 to 65 and 120 to 125.\<close>

theorem stitch_offsets_sorted_distinct_witness:
  "decodeAndResample env_ok large_file = Inr audio_150
   \<and> chunk_windows 0 (duration audio_150) = [(0, 60), (60, 120), (120, 150)]
   \<and> transcripts env_ok [Decoded large_file] (window_blobs audio_150)
       = map Inr [[reply_segment], [reply_segment], [reply_segment]]
   \<and> fst (processChunkedAudio env_ok [] large_file)
       = Inr [reply_segment\<lparr>seg_id := ''seg-0-seg-1000-0''\<rparr>,
              reply_segment\<lparr>seg_id := ''seg-60-seg-1000-0'',
                startTime := Val (JNum 60), endTime := Val (JNum 65)\<rparr>,
              reply_segment\<lparr>seg_id := ''seg-120-seg-1000-0'',
                startTime := Val (JNum 120), endTime := Val (JNum 125)\<rparr>]"
proof -
  have w: "chunk_windows 0 (duration audio_150) = [(0, 60), (60, 120), (120, 150)]"
    by (simp add: duration_audio_150 chunk_windows_150)
  have t: "transcripts env_ok ([] @ [Decoded large_file]) (window_blobs audio_150)
       = map Inr [[reply_segment], [reply_segment], [reply_segment]]"
    by (simp only: transcripts_env_ok)
  have s: "stitched env_ok [(0, 60), (60, 120), (120, 150)]
             [[reply_segment], [reply_segment], [reply_segment]]
       = [reply_segment\<lparr>seg_id := ''seg-0-seg-1000-0''\<rparr>,
              reply_segment\<lparr>seg_id := ''seg-60-seg-1000-0'',
                startTime := Val (JNum 60), endTime := Val (JNum 65)\<rparr>,
              reply_segment\<lparr>seg_id := ''seg-120-seg-1000-0'',
                startTime := Val (JNum 120), endTime := Val (JNum 125)\<rparr>]"
    by (simp add: stitched_def shifted_def reply_segment_def Number_toString_def
        Int_toString_def digits_0 digits_60 digits_120 number_of_def fl_numeral)
  have o: "sort_key (\<lambda>s. number_of (startTime s))
             [reply_segment\<lparr>seg_id := ''seg-0-seg-1000-0''\<rparr>,
              reply_segment\<lparr>seg_id := ''seg-60-seg-1000-0'',
                startTime := Val (JNum 60), endTime := Val (JNum 65)\<rparr>,
              reply_segment\<lparr>seg_id := ''seg-120-seg-1000-0'',
                startTime := Val (JNum 120), endTime := Val (JNum 125)\<rparr>]
       = [reply_segment\<lparr>seg_id := ''seg-0-seg-1000-0''\<rparr>,
              reply_segment\<lparr>seg_id := ''seg-60-seg-1000-0'',
                startTime := Val (JNum 60), endTime := Val (JNum 65)\<rparr>,
              reply_segment\<lparr>seg_id := ''seg-120-seg-1000-0'',
                startTime := Val (JNum 120), endTime := Val (JNum 125)\<rparr>]"
    by (simp add: reply_segment_def number_of_def)
  have "fst (processChunkedAudio env_ok [] large_file)
      = Inr (sort_key (\<lambda>s. number_of (startTime s))
               (stitched env_ok (chunk_windows 0 (duration audio_150))
                  [[reply_segment], [reply_segment], [reply_segment]]))"
    by (rule stitch_offsets_sorted_distinct [OF decode_env_ok t, THEN conjunct2, THEN conjunct2,
          THEN conjunct2, THEN mp, OF numeric_replies, THEN conjunct1])
  then have "fst (processChunkedAudio env_ok [] large_file)
       = Inr [reply_segment\<lparr>seg_id := ''seg-0-seg-1000-0''\<rparr>,
              reply_segment\<lparr>seg_id := ''seg-60-seg-1000-0'',
                startTime := Val (JNum 60), endTime := Val (JNum 65)\<rparr>,
              reply_segment\<lparr>seg_id := ''seg-120-seg-1000-0'',
                startTime := Val (JNum 120), endTime := Val (JNum 125)\<rparr>]"
    by (simp only: w s o)
  then show ?thesis
    using decode_env_ok[of large_file] w transcripts_env_ok[of "[Decoded large_file]"] by simp
qed

lemma decode_env_empty_object: "decodeAndResample env_empty_object b = Inr audio_150"
  by (rule decode_like_env_ok) (simp_all add: env_empty_object_def)

lemma transcripts_env_empty_object:
  "transcripts env_empty_object tr (window_blobs audio_150)
     = map Inr [[undefined_segment], [undefined_segment], [undefined_segment]]"
  by (simp add: window_blobs_150 processSingleChunk_env_empty_object mime_window_blob)

text \<open>
  Claim C2, as stated, at three windows whose reply is \<open>[{}]\<close>: the segments that reach the
  stitcher have no start time, the sums \<open>undefined + 0\<close>, \<open>undefined + 60\<close> and
  \<open>undefined + 120\<close> are not numbers, and the result is not the list of the segments moved
  by the window starts and sorted by start time.
\<close>

theorem stitch_untyped_counterexample:
  "decodeAndResample env_empty_object large_file = Inr audio_150
   \<and> transcripts env_empty_object [Decoded large_file] (window_blobs audio_150)
       = map Inr [[undefined_segment], [undefined_segment], [undefined_segment]]
   \<and> fst (processChunkedAudio env_empty_object [] large_file)
       = Inr [undefined_segment\<lparr>seg_id := ''seg-0-seg-1000-0'',
                startTime := Plus Undefined 0, endTime := Plus Undefined 0\<rparr>,
              undefined_segment\<lparr>seg_id := ''seg-60-seg-1000-0'',
                startTime := Plus Undefined 60, endTime := Plus Undefined 60\<rparr>,
              undefined_segment\<lparr>seg_id := ''seg-120-seg-1000-0'',
                startTime := Plus Undefined 120, endTime := Plus Undefined 120\<rparr>]
   \<and> fst (processChunkedAudio env_empty_object [] large_file)
       \<noteq> Inr (sort_key (\<lambda>s. number_of (startTime s))
               (stitched env_empty_object (chunk_windows 0 (duration audio_150))
                  [[undefined_segment], [undefined_segment], [undefined_segment]]))"
proof -
  have w: "chunk_windows 0 (duration audio_150) = [(0, 60), (60, 120), (120, 150)]"
    by (simp add: duration_audio_150 chunk_windows_150)
  have t: "transcripts env_empty_object ([] @ [Decoded large_file]) (window_blobs audio_150)
       = map Inr [[undefined_segment], [undefined_segment], [undefined_segment]]"
    by (simp only: transcripts_env_empty_object)
  have "processChunkedAudio env_empty_object [] large_file =
     (Inr (sort_by_startTime env_empty_object
        (concat (map2 (\<lambda>w segs. map (adjust env_empty_object (fst w)) segs)
                  (chunk_windows 0 (duration audio_150))
                  [[undefined_segment], [undefined_segment], [undefined_segment]]))),
      trace_after env_empty_object ([] @ [Decoded large_file]) (window_blobs audio_150))"
    using decode_env_empty_object t by (rule processChunkedAudio_success)
  then have r: "fst (processChunkedAudio env_empty_object [] large_file)
       = Inr [undefined_segment\<lparr>seg_id := ''seg-0-seg-1000-0'',
                startTime := Plus Undefined 0, endTime := Plus Undefined 0\<rparr>,
              undefined_segment\<lparr>seg_id := ''seg-60-seg-1000-0'',
                startTime := Plus Undefined 60, endTime := Plus Undefined 60\<rparr>,
              undefined_segment\<lparr>seg_id := ''seg-120-seg-1000-0'',
                startTime := Plus Undefined 120, endTime := Plus Undefined 120\<rparr>]"
    by (simp add: w adjust_def js_plus_def undefined_segment_def sort_by_startTime_def
        is_number_def env_empty_object_def env_ok_def Number_toString_def Int_toString_def
        digits_0 digits_60 digits_120)
  have m: "x \<in> set (sort_key (\<lambda>s. number_of (startTime s))
               (stitched env_empty_object (chunk_windows 0 (duration audio_150))
                  [[undefined_segment], [undefined_segment], [undefined_segment]]))
      \<Longrightarrow> is_number (startTime x)" for x
    using stitched_numeric[of env_empty_object "chunk_windows 0 (duration audio_150)"
        "[[undefined_segment], [undefined_segment], [undefined_segment]]"]
    by (simp add: list_all_iff)
  have n: "fst (processChunkedAudio env_empty_object [] large_file)
       \<noteq> Inr (sort_key (\<lambda>s. number_of (startTime s))
               (stitched env_empty_object (chunk_windows 0 (duration audio_150))
                  [[undefined_segment], [undefined_segment], [undefined_segment]]))"
  proof
    assume e: "fst (processChunkedAudio env_empty_object [] large_file)
       = Inr (sort_key (\<lambda>s. number_of (startTime s))
               (stitched env_empty_object (chunk_windows 0 (duration audio_150))
                  [[undefined_segment], [undefined_segment], [undefined_segment]]))"
    have "undefined_segment\<lparr>seg_id := ''seg-0-seg-1000-0'',
                startTime := Plus Undefined 0, endTime := Plus Undefined 0\<rparr>
        \<in> set (sort_key (\<lambda>s. number_of (startTime s))
               (stitched env_empty_object (chunk_windows 0 (duration audio_150))
                  [[undefined_segment], [undefined_segment], [undefined_segment]]))"
      using e[symmetric] unfolding r by (simp del: set_sort)
    then show False using m by (fastforce simp: is_number_def)
  qed
  show ?thesis
    using decode_env_empty_object[of large_file]
      transcripts_env_empty_object[of "[Decoded large_file]"] r n
    by (intro conjI)
qed

theorem window_failure_aborts_witness:
  "decodeAndResample env_second_fails small_file = Inr audio_150
   \<and> (1::nat) < length (window_blobs audio_150)
   \<and> take 1 (transcripts env_second_fails [Decoded small_file] (window_blobs audio_150))
       = map Inr [[reply_segment]]
   \<and> transcripts env_second_fails [Decoded small_file] (window_blobs audio_150) ! 1
       = Inl (Error ''Rpc failed'')
   \<and> fst (processChunkedAudio env_second_fails [] small_file)
       = Inl (Error ''Failed to process audio segment at 1:00. API Error.'')
   \<and> calls (snd (processChunkedAudio env_second_fails [] small_file))
       = [sent (window_blob (channelData audio_150) (0, 60)),
          sent (window_blob (channelData audio_150) (60, 120))]"
proof -
  have d: "decodeAndResample env_second_fails small_file = Inr audio_150"
    by (rule decode_like_env_ok) (simp_all add: env_second_fails_def)
  have k: "(1::nat) < length (window_blobs audio_150)"
    by (simp add: window_blobs_150)
  have t: "transcripts env_second_fails [Decoded small_file] (window_blobs audio_150)
      = [Inr [reply_segment], Inl (Error ''Rpc failed''), Inr [reply_segment]]"
    by (simp add: window_blobs_150 processSingleChunk_env_second_fails mime_window_blob)
  have t1: "take 1 (transcripts env_second_fails ([] @ [Decoded small_file]) (window_blobs audio_150))
      = map Inr [[reply_segment]]"
    by (simp add: t)
  have t2: "transcripts env_second_fails ([] @ [Decoded small_file]) (window_blobs audio_150) ! 1
      = Inl (Error ''Rpc failed'')"
    by (simp add: t)
  have c: "call_for env_second_fails (window_blob pcm w) = [sent (window_blob pcm w)]" for pcm w
    by (rule call_for_wav) (simp_all add: env_second_fails_def mime_window_blob)
  note W = window_failure_aborts [OF d k t1 t2]
  have 1: "processChunkedAudio env_second_fails [] small_file =
           (Inl (Error (''Failed to process audio segment at '' @ formatTime (60 * of_nat 1)
                          @ ''. API Error.'')),
            trace_after env_second_fails ([] @ [Decoded small_file])
              (take (Suc 1) (window_blobs audio_150)))"
    using W by (rule conjunct1)
  have 2: "formatTime (60 * of_nat 1) = digits 1 @ '':00''"
    using W by blast
  have 3: "calls (snd (processChunkedAudio env_second_fails [] small_file))
         = calls [] @ concat (map (call_for env_second_fails) (take (Suc 1) (window_blobs audio_150)))"
    using W by blast
  have "fst (processChunkedAudio env_second_fails [] small_file)
       = Inl (Error ''Failed to process audio segment at 1:00. API Error.'')"
    by (simp only: 1 2 digits_1 fst_conv) simp
  moreover have "calls (snd (processChunkedAudio env_second_fails [] small_file))
       = [sent (window_blob (channelData audio_150) (0, 60)),
          sent (window_blob (channelData audio_150) (60, 120))]"
    by (simp only: 3) (simp add: window_blobs_150 c)
  ultimately show ?thesis using d k t by (simp add: window_blobs_150)
qed

lemma decodeAudioData_env_zero_duration: "decodeAudioData env_zero_duration b = Inr 0"
  by (simp add: env_zero_duration_def)

text \<open>
  Claim C9, as stated, at a file of 2621440 bytes whose decoded audio has the duration 0:
  the chunked path does not return the empty sequence, it throws.
\<close>

theorem zero_duration_throws_counterexample:
  "decodeAudioData env_zero_duration large_file = Inr 0
   \<and> processChunkedAudio env_zero_duration [] large_file
       = (Inl NotSupportedError, [Decoded large_file])
   \<and> fst (processChunkedAudio env_zero_duration [] large_file) \<noteq> Inr []"
  by (simp add: processChunkedAudio_def decodeAndResample_def decodeAudioData_env_zero_duration
      unsigned_long_def js_trunc_def)

lemma one_frame_at_48_kHz: "unsigned_long (fl (fl (1 / 48000) * 16000)) = 0"
proof -
  have a: "fl (1 / 48000) \<le> 2 powi (- 15)"
    by (rule fl_le_powi) (simp_all add: power_int_def power_divide)
  have a0: "0 \<le> fl (1 / 48000)" by (rule fl_nonneg) simp
  have "fl (1 / 48000) * 16000 \<le> 2 powi (- 15) * 16000"
    using a by simp
  also have "\<dots> \<le> 2 powi (- 1)" by (simp add: power_int_def power_divide)
  finally have b: "fl (fl (1 / 48000) * 16000) \<le> 2 powi (- 1)"
    using a0 by (intro fl_le_powi) simp_all
  have c: "0 \<le> fl (fl (1 / 48000) * 16000)"
    using a0 by (intro fl_nonneg) simp
  have "fl (fl (1 / 48000) * 16000) < 1"
    using b by (simp add: power_int_def)
  then have "\<lfloor>fl (fl (1 / 48000) * 16000)\<rfloor> = 0"
    using c by (simp add: floor_eq_iff)
  then show ?thesis using c by (simp add: unsigned_long_def js_trunc_def)
qed

lemma decodeAudioData_env_one_frame: "decodeAudioData env_one_frame b = Inr (fl (1 / 48000))"
  by (simp add: env_one_frame_def)

text \<open>A file of 2621440 bytes whose decoded audio is one frame at 48 kHz: a third of a
  frame at 16 kHz, so that the offline context has the length 0.\<close>

theorem zero_duration_no_call_witness:
  "decodeAudioData env_one_frame large_file = Inr (fl (1 / 48000))
   \<and> unsigned_long (fl (fl (1 / 48000) * 16000)) = 0
   \<and> calls (snd (processChunkedAudio env_one_frame [] large_file)) = []
   \<and> processAudioWithGemini env_one_frame [] large_file
       = (Inl NotSupportedError, [Decoded large_file])"
proof -
  have k: "API_KEY env_one_frame = Some ''key''"
    by (simp add: env_one_frame_def API_KEY_env_ok)
  note Z = zero_duration_no_call [OF decodeAudioData_env_one_frame[of large_file]
      one_frame_at_48_kHz, of "[]"]
  have 1: "calls (snd (processChunkedAudio env_one_frame [] large_file)) = calls []"
    using Z by blast
  have "\<forall>apiKey. API_KEY env_one_frame = Some apiKey \<and> apiKey \<noteq> []
          \<and> 2621440 \<le> size_blob large_file \<longrightarrow>
         processAudioWithGemini env_one_frame [] large_file
           = (Inl NotSupportedError, [] @ [Decoded large_file])"
    using Z by blast
  then have 2: "processAudioWithGemini env_one_frame [] large_file
       = (Inl NotSupportedError, [Decoded large_file])"
    using k size_large_file by simp
  show ?thesis
    using decodeAudioData_env_one_frame[of large_file] one_frame_at_48_kHz 1 2 by simp
qed

theorem missing_api_key_witness:
  "API_KEY (env_ok\<lparr>API_KEY := None\<rparr>) = None
   \<and> processAudioWithGemini (env_ok\<lparr>API_KEY := None\<rparr>) [] small_file
       = (Inl (Error ''API Key is missing from environment variables.''), [])"
  using missing_api_key [of "env_ok\<lparr>API_KEY := None\<rparr>" "[]" small_file] by simp

text \<open>A file of three bytes, \<open>ID3\<close>, is sent once as it is, \<open>SUQz\<close> in Base64; a file of
  2621440 bytes holding 150 seconds of audio gives three calls, one per window, each
  carrying the WAV bytes of its window.\<close>

theorem routing_by_size_witness:
  "API_KEY env_ok = Some ''key''
   \<and> size_blob small_file < 2621440
   \<and> content small_file = [73, 68, 51]
   \<and> readAsDataURL env_ok small_file = Inr ''data:audio/mpeg;base64,SUQz''
   \<and> processAudioWithGemini env_ok [] small_file
       = (Inr [reply_segment],
          [FileRead small_file, Generate \<lparr>mimeType = ''audio/mpeg'', data = Some ''SUQz''\<rparr>])
   \<and> 2621440 \<le> size_blob large_file
   \<and> calls (snd (processAudioWithGemini env_ok [] large_file))
       = [sent (window_blob (channelData audio_150) (0, 60)),
          sent (window_blob (channelData audio_150) (60, 120)),
          sent (window_blob (channelData audio_150) (120, 150))]"
proof -
  have k: "''key'' \<noteq> []" by simp
  note S = routing_by_size [OF API_KEY_env_ok k, of small_file "[]", THEN conjunct1, THEN mp,
      OF size_small_file]
  note L = routing_by_size [OF API_KEY_env_ok k, of large_file "[]", THEN conjunct2, THEN mp,
      OF size_large_file]
  have u: "readAsDataURL env_ok small_file = Inr ''data:audio/mpeg;base64,SUQz''"
    by (simp add: readAsDataURL_env_ok data_url_def base64_small_file mime_small_file)
  have t: "transcripts env_ok ([] @ [Decoded large_file]) (window_blobs audio_150)
       = map Inr [[reply_segment], [reply_segment], [reply_segment]]"
    by (simp only: transcripts_env_ok)
  have ok: "fst (processSingleChunk env_ok [] small_file) = Inr [reply_segment]"
    by (simp add: processSingleChunk_env_ok_mpeg mime_small_file)
  have f: "fst (processAudioWithGemini env_ok [] small_file) = Inr [reply_segment]"
    using S[THEN conjunct2, THEN conjunct1, THEN spec, THEN mp, OF ok] by (rule conjunct1)
  have r: "readAsDataURL env_ok small_file = Inr (data_url (mime small_file) small_file)
      \<and> CHR '','' \<notin> set (mime small_file)"
    by (simp add: readAsDataURL_env_ok mime_small_file)
  have "snd (processAudioWithGemini env_ok [] small_file)
      = [] @ [FileRead small_file, Generate (sent small_file)]"
    using S[THEN conjunct2, THEN conjunct2, THEN spec, THEN mp, OF r] .
  then have g: "snd (processAudioWithGemini env_ok [] small_file)
      = [FileRead small_file, Generate \<lparr>mimeType = ''audio/mpeg'', data = Some ''SUQz''\<rparr>]"
    by (simp add: sent_small_file mpeg_request_def)
  have 1: "processAudioWithGemini env_ok [] small_file
       = (Inr [reply_segment],
          [FileRead small_file, Generate \<lparr>mimeType = ''audio/mpeg'', data = Some ''SUQz''\<rparr>])"
    using f g by (simp add: prod_eq_iff)
  have a: "list_all (\<lambda>b. readAsDataURL env_ok b = Inr (data_url ''audio/wav'' b))
      (window_blobs audio_150)"
    by (simp add: window_blobs_150 readAsDataURL_env_ok mime_window_blob)
  have "calls (snd (processAudioWithGemini env_ok [] large_file))
       = calls [] @ map sent (window_blobs audio_150)"
    using L[THEN conjunct2, THEN conjunct2, THEN conjunct2, THEN spec, THEN spec, THEN mp,
        OF conjI [OF decode_env_ok conjI [OF t a]]] .
  then have 2: "calls (snd (processAudioWithGemini env_ok [] large_file))
       = [sent (window_blob (channelData audio_150) (0, 60)),
          sent (window_blob (channelData audio_150) (60, 120)),
          sent (window_blob (channelData audio_150) (120, 150))]"
    by (simp add: window_blobs_150)
  have c: "content small_file = [73, 68, 51]" by (simp add: small_file_def)
  show ?thesis using API_KEY_env_ok size_small_file c u 1 size_large_file 2 by (intro conjI)
qed

text \<open>A reply of the declared shape gives its segment; a reply that is not JSON is a format
  error.\<close>

theorem parse_response_format_witness:
  "JSON_parse env_ok reply_text = Some reply_json
   \<and> reply_json = JArr [JObj [(''startTime'', JNum 0), (''endTime'', JNum 5),
        (''originalText'', JStr ''hello''), (''translatedText'', JStr ''ni hao'')]]
   \<and> parse_response env_ok [] (Some reply_text) = Inr [reply_segment]
   \<and> format_error (parse_response env_ok [] (Some ''not json''))"
proof -
  let ?items = "[JObj [(''startTime'', JNum 0), (''endTime'', JNum 5),
        (''originalText'', JStr ''hello''), (''translatedText'', JStr ''ni hao'')]]"
  have p: "JSON_parse env_ok reply_text = Some (JArr ?items)"
    by (simp add: env_ok_def reply_json_def)
  have n: "JSON_parse env_ok ''not json'' = None"
    by (simp add: env_ok_def reply_text_def)
  have nn: "JNull \<notin> set ?items" by simp
  have "parse_response env_ok [] (Some reply_text)
      = Inr (map2 (segment_of_item env_ok []) [0 ..< length ?items] ?items)"
    by (rule parse_response_format [of env_ok "[]" "Some reply_text", THEN conjunct2,
          THEN spec, THEN spec, THEN mp,
          OF conjI [OF refl conjI [OF reply_text_nonempty conjI [OF p nn]]]])
  then have 1: "parse_response env_ok [] (Some reply_text) = Inr [reply_segment]"
    by (simp add: segment_of_item_def get_prop_def env_ok_def Int_toString_def digits_1000
        digits_0 reply_segment_def)
  have "Some ''not json'' = None \<or> Some ''not json'' = Some []
      \<or> (\<exists>t. Some ''not json'' = Some t \<and> JSON_parse env_ok t = None)
      \<or> (\<exists>t v. Some ''not json'' = Some t \<and> JSON_parse env_ok t = Some v \<and> \<not> is_array v)"
    using n by simp
  then have 2: "format_error (parse_response env_ok [] (Some ''not json''))"
    by (rule parse_response_format [of env_ok "[]" "Some ''not json''", THEN conjunct1, THEN iffD2])
  show ?thesis using p 1 2 by (simp add: reply_json_def)
qed

text \<open>
  Claim C7, as stated, at the reply \<open>[{}]\<close>: an array whose element has none of the
  mandatory fields is not of the declared shape, and the client returns a segment with
  \<open>undefined\<close> fields instead of failing.
\<close>

theorem reply_shape_not_checked_counterexample:
  "generateContent env_empty_object [FileRead small_file] mpeg_request = Inr (Some ''[{}]'')
   \<and> JSON_parse env_empty_object ''[{}]'' = Some (JArr [JObj []])
   \<and> \<not> conforms_schema (JArr [JObj []])
   \<and> fst (processSingleChunk env_empty_object [] small_file)
       = Inr [\<lparr>seg_id = ''seg-1000-0'', startTime = Undefined, endTime = Undefined,
               originalText = Undefined, translatedText = Undefined\<rparr>]"
proof -
  have 1: "generateContent env_empty_object tr req = Inr (Some ''[{}]'')" for tr req
    by (simp add: env_empty_object_def)
  have 2: "JSON_parse env_empty_object ''[{}]'' = Some (JArr [JObj []])"
    using reply_text_not_empty_object by (simp add: env_empty_object_def env_ok_def)
  have 3: "\<not> conforms_schema (JArr [JObj []])"
    by (simp add: conforms_schema_def item_conforms_def)
  have b: "blobToBase64 env_empty_object small_file = Inr (Some (base64 (content small_file)))"
    by (rule blobToBase64_mpeg) (simp_all add: env_empty_object_def mime_small_file)
  have p: "parse_response env_empty_object tr (Some ''[{}]'')
     = Inr [\<lparr>seg_id = ''seg-1000-0'', startTime = Undefined, endTime = Undefined,
             originalText = Undefined, translatedText = Undefined\<rparr>]" for tr
    using parse_empty_object[of env_empty_object tr]
    by (simp add: env_empty_object_def undefined_segment_def)
  have 4: "fst (processSingleChunk env_empty_object [] small_file)
       = Inr [\<lparr>seg_id = ''seg-1000-0'', startTime = Undefined, endTime = Undefined,
               originalText = Undefined, translatedText = Undefined\<rparr>]"
    by (simp add: processSingleChunk_def b 1 p Let_def)
  show ?thesis using 1 2 3 4 by simp
qed

lemma API_KEY_env_rpc_fails: "API_KEY env_rpc_fails = Some ''key''"
  by (simp add: env_rpc_fails_def API_KEY_env_ok)

lemma decode_env_rpc_fails: "decodeAndResample env_rpc_fails b = Inr audio_150"
  by (rule decode_like_env_ok) (simp_all add: env_rpc_fails_def)

lemma transcripts_env_rpc_fails:
  "transcripts env_rpc_fails tr (window_blobs audio_150)
     = [Inl (Error ''Rpc failed''), Inl (Error ''Rpc failed''), Inl (Error ''Rpc failed'')]"
  by (simp add: window_blobs_150 processSingleChunk_env_rpc_fails mime_window_blob)

lemma chunked_rpc_failure:
  "processAudioWithGemini env_rpc_fails [] large_file =
     (Inl (Error ''Failed to process audio segment at 0:00. API Error.''),
      [Decoded large_file, FileRead (window_blob (channelData audio_150) (0, 60)),
       Generate (sent (window_blob (channelData audio_150) (0, 60)))])"
proof -
  have "processChunkedAudio env_rpc_fails [] large_file =
     (Inl (chunk_failure (60 * of_nat 0)),
      trace_after env_rpc_fails ([] @ [Decoded large_file]) (take (Suc 0) (window_blobs audio_150)))"
    by (rule processChunkedAudio_failure[where segss = "[]" and e = "Error ''Rpc failed''"])
      (simp_all add: decode_env_rpc_fails transcripts_env_rpc_fails window_blobs_150
        processSingleChunk_env_rpc_fails mime_window_blob)
  moreover have "chunk_failure (60 * of_nat 0)
      = Error ''Failed to process audio segment at 0:00. API Error.''"
    by (simp only: chunk_failure_start digits_0) simp
  moreover have "trace_after env_rpc_fails ([] @ [Decoded large_file]) (take (Suc 0) (window_blobs audio_150))
      = [Decoded large_file, FileRead (window_blob (channelData audio_150) (0, 60)),
         Generate (sent (window_blob (channelData audio_150) (0, 60)))]"
    by (simp add: window_blobs_150 processSingleChunk_env_rpc_fails mime_window_blob)
  ultimately have c: "processChunkedAudio env_rpc_fails [] large_file =
     (Inl (Error ''Failed to process audio segment at 0:00. API Error.''),
      [Decoded large_file, FileRead (window_blob (channelData audio_150) (0, 60)),
       Generate (sent (window_blob (channelData audio_150) (0, 60)))])"
    by simp
  have "\<not> str_includes ''Failed to process audio segment at 0:00. API Error.'' ''Rpc failed''"
    "\<not> str_includes ''Failed to process audio segment at 0:00. API Error.'' ''xhr error''"
    by simp_all
  then show ?thesis
    using size_large_file
    by (simp add: processAudioWithGemini_def API_KEY_env_rpc_fails CHUNK_THRESHOLD_BYTES_def c
        message_includes_def)
qed

text \<open>
  Claim C8, as stated, on the chunked path: the transport fails with \<open>Rpc failed\<close> at the
  first window of a large file, and the error surfaced is not the network error message.
\<close>

theorem chunked_transport_failure_counterexample:
  "generateContent env_rpc_fails
      [Decoded large_file, FileRead (window_blob (channelData audio_150) (0, 60))]
      (sent (window_blob (channelData audio_150) (0, 60))) = Inl (Error ''Rpc failed'')
   \<and> fst (processAudioWithGemini env_rpc_fails [] large_file)
       = Inl (Error ''Failed to process audio segment at 0:00. API Error.'')
   \<and> fst (processAudioWithGemini env_rpc_fails [] large_file) \<noteq> Inl network_error"
  by (simp add: chunked_rpc_failure network_error_def) (simp add: env_rpc_fails_def)

theorem transport_failure_surfaced_witness:
  "API_KEY env_rpc_fails = Some ''key''
   \<and> size_blob small_file < 2621440
   \<and> processAudioWithGemini env_rpc_fails [] small_file
       = (Inl network_error, [FileRead small_file, Generate mpeg_request])
   \<and> 2621440 \<le> size_blob large_file
   \<and> fst (processAudioWithGemini env_rpc_fails [] large_file)
       = Inl (Error ''Failed to process audio segment at 0:00. API Error.'')"
proof -
  have k: "''key'' \<noteq> []" by simp
  have b: "blobToBase64 env_rpc_fails small_file = Inr (Some (base64 (content small_file)))"
    by (rule blobToBase64_mpeg) (simp_all add: env_rpc_fails_def mime_small_file)
  have r: "request_of small_file (Some (base64 (content small_file))) = mpeg_request"
    by (simp only: request_of_sent sent_small_file)
  have g: "generateContent env_rpc_fails ([] @ [FileRead small_file])
             (request_of small_file (Some (base64 (content small_file)))) = Inl (Error ''Rpc failed'')"
    by (simp add: env_rpc_fails_def)
  have i: "str_includes ''Rpc failed'' ''Rpc failed'' \<or> str_includes ''Rpc failed'' ''xhr error''"
    by simp
  have "processAudioWithGemini env_rpc_fails [] small_file
      = (Inl network_error,
         [] @ [FileRead small_file,
               Generate (request_of small_file (Some (base64 (content small_file))))])"
    by (rule transport_failure_surfaced [OF API_KEY_env_rpc_fails k, THEN conjunct1, THEN mp,
          OF size_small_file, THEN spec, THEN spec, THEN mp, OF conjI [OF b conjI [OF g i]]])
  then have 1: "processAudioWithGemini env_rpc_fails [] small_file
       = (Inl network_error, [FileRead small_file, Generate mpeg_request])"
    by (simp add: r)
  have t1: "take 0 (transcripts env_rpc_fails ([] @ [Decoded large_file]) (window_blobs audio_150))
      = map Inr []"
    by simp
  have t2: "transcripts env_rpc_fails ([] @ [Decoded large_file]) (window_blobs audio_150) ! 0
      = Inl (Error ''Rpc failed'')"
    by (simp add: transcripts_env_rpc_fails)
  have l: "0 < length (window_blobs audio_150)"
    by (simp add: window_blobs_150)
  have "processAudioWithGemini env_rpc_fails [] large_file
      = (Inl (Error (''Failed to process audio segment at '' @ digits 0 @ '':00. API Error.'')),
         trace_after env_rpc_fails ([] @ [Decoded large_file]) (take (Suc 0) (window_blobs audio_150)))"
    by (rule transport_failure_surfaced [OF API_KEY_env_rpc_fails k, THEN conjunct2, THEN mp,
          OF size_large_file, THEN spec, THEN spec, THEN spec, THEN spec, THEN mp,
          OF conjI [OF decode_env_rpc_fails conjI [OF l conjI [OF t1 t2]]], THEN conjunct1])
  then have 2: "fst (processAudioWithGemini env_rpc_fails [] large_file)
       = Inl (Error ''Failed to process audio segment at 0:00. API Error.'')"
    by (simp add: digits_0)
  show ?thesis using 1 2 API_KEY_env_rpc_fails size_small_file size_large_file by simp
qed

end
